theory Spec2Isabelle
  imports Main
begin

section \<open>Memory, pointers and errors\<close>

text \<open>
  The model of \<^verbatim>\<open>src/vector/vector.h\<close>. Raw storage is a list of blocks; a block is a list
  of slots; a slot is either raw memory (\<open>None\<close>) or a live object of the element type
  (\<open>Some v\<close>). A pointer \<open>T*\<close> is \<open>nullptr\<close> or a block number with an offset.
  The memory records which blocks are in use. A released block is emptied and struck off
  that record, so every later access through a dangling pointer is out of bounds and a
  second \<open>operator delete\<close> of it is an error.
  The member \<open>x_\<close> of the source is written \<open>m_x\<close>.

  \<open>size_t\<close> has 64 bits. A value of type \<open>size_t\<close> is a \<open>nat\<close>, and the one product that a
  caller's argument can drive past \<open>2 ^ 64\<close>, the \<open>n * sizeof(T)\<close> of \<open>Allocate\<close>, is taken
  modulo \<open>2 ^ 64\<close> as the source computes it: the block obtained may then be smaller than
  the \<open>n\<close> elements that \<open>capacity_\<close> records. The length \<open>size_\<close> of a vector counts
  objects that lie in one block, and no block has more than \<open>PTRDIFF_MAX = 2 ^ 63 - 1\<close>
  bytes, so \<open>size_ * 2\<close> and \<open>++size_\<close> stay below \<open>2 ^ 64\<close> and are written without the
  reduction.

  Three things end a call early: \<open>operator new\<close> throwing \<open>std::bad_alloc\<close>, an
  \<open>assert\<close> that fails, and undefined behaviour (an access outside a block, reading or
  destroying raw memory). Constructors and assignments of the element type are taken
  not to throw.
\<close>

datatype error = bad_alloc | assertion_failed | undefined_behaviour

datatype ptr = nullptr | Ptr nat nat

record 'a memory =
  blocks :: "'a option list list"
  free_slots :: nat
  in_use :: "nat list"

text \<open>
  What the container needs of \<open>T\<close>: the value of \<open>T()\<close>, the state a moved-from object is
  left in, the compile-time condition
  \<open>is_nothrow_move_constructible_v<T> || !is_copy_constructible_v<T>\<close>, and \<open>sizeof(T)\<close>.
\<close>

record 'a elem_type =
  value_init :: 'a
  moved_from :: "'a \<Rightarrow> 'a"
  move_if_noexcept :: bool
  size_of :: nat

definition and_then :: "error + 'x \<Rightarrow> ('x \<Rightarrow> error + 'y) \<Rightarrow> error + 'y" where
  "and_then m f = (case m of Inl e \<Rightarrow> Inl e | Inr x \<Rightarrow> f x)"

definition assert :: "bool \<Rightarrow> error + unit" where
  "assert c = (if c then Inr () else Inl assertion_failed)"

fun ptr_add :: "ptr \<Rightarrow> nat \<Rightarrow> ptr" where
  "ptr_add nullptr n = nullptr"
| "ptr_add (Ptr b i) n = Ptr b (i + n)"

fun ptr_diff :: "ptr \<Rightarrow> ptr \<Rightarrow> error + nat" where
  "ptr_diff nullptr nullptr = Inr 0"
| "ptr_diff (Ptr b i) (Ptr c j) = (if b = c \<and> j \<le> i then Inr (i - j) else Inl undefined_behaviour)"
| "ptr_diff _ _ = Inl undefined_behaviour"

fun ptr_le :: "ptr \<Rightarrow> ptr \<Rightarrow> bool" where
  "ptr_le nullptr nullptr = True"
| "ptr_le (Ptr b i) (Ptr c j) = (b = c \<and> i \<le> j)"
| "ptr_le _ _ = False"

fun slot_at :: "'a memory \<Rightarrow> ptr \<Rightarrow> 'a option option" where
  "slot_at h nullptr = None"
| "slot_at h (Ptr b i) =
     (if b < length (blocks h) \<and> i < length (blocks h ! b) then Some (blocks h ! b ! i) else None)"

fun poke :: "ptr \<Rightarrow> 'a option \<Rightarrow> 'a memory \<Rightarrow> 'a memory" where
  "poke nullptr s h = h"
| "poke (Ptr b i) s h = h\<lparr>blocks := (blocks h)[b := (blocks h ! b)[i := s]]\<rparr>"

definition operator_new :: "'a elem_type \<Rightarrow> nat \<Rightarrow> 'a memory \<Rightarrow> error + (ptr \<times> 'a memory)" where
  \<comment> \<open>\<open>operator new(bytes)\<close>: a new block of \<open>bytes\<close> bytes of raw memory, which is room for
      \<open>bytes div sizeof(T)\<close> objects (none for a request of less than \<open>sizeof(T)\<close> bytes, whose
      pointer is not null all the same), or \<open>std::bad_alloc\<close>\<close>
  "operator_new T bytes h =
     (let slots = bytes div size_of T in
      if slots \<le> free_slots h
      then Inr (Ptr (length (blocks h)) 0,
                h\<lparr>blocks := blocks h @ [replicate slots None], free_slots := free_slots h - slots,
                  in_use := length (blocks h) # in_use h\<rparr>)
      else Inl bad_alloc)"

definition Allocate :: "'a elem_type \<Rightarrow> nat \<Rightarrow> 'a memory \<Rightarrow> error + (ptr \<times> 'a memory)" where
  \<comment> \<open>\<open>n != 0 ? operator new(n * sizeof(T)) : nullptr\<close>, the product in \<open>size_t\<close>\<close>
  "Allocate T n h =
     (if n \<noteq> 0 then operator_new T ((n * size_of T) mod 2 ^ 64) h else Inr (nullptr, h))"

definition Deallocate :: "ptr \<Rightarrow> 'a memory \<Rightarrow> error + 'a memory" where
  \<comment> \<open>\<open>operator delete(buf)\<close>: nothing for \<open>nullptr\<close>, else \<open>buf\<close> must be the start of a block in use\<close>
  "Deallocate buf h =
     (case buf of
        nullptr \<Rightarrow> Inr h
      | Ptr b i \<Rightarrow>
          if i = 0 \<and> b < length (blocks h) \<and> b \<in> set (in_use h)
          then Inr (h\<lparr>blocks := (blocks h)[b := []],
                     free_slots := free_slots h + length (blocks h ! b),
                     in_use := removeAll b (in_use h)\<rparr>)
          else Inl undefined_behaviour)"

subsection \<open>Objects of the element type\<close>

definition load :: "ptr \<Rightarrow> 'a memory \<Rightarrow> error + 'a" where
  \<comment> \<open>reading the object \<open>*p\<close>\<close>
  "load p h = (case slot_at h p of Some (Some v) \<Rightarrow> Inr v | _ \<Rightarrow> Inl undefined_behaviour)"

definition construct_at :: "ptr \<Rightarrow> 'a \<Rightarrow> 'a memory \<Rightarrow> error + 'a memory" where
  \<comment> \<open>\<open>new (p) T(v)\<close>\<close>
  "construct_at p v h =
     (case slot_at h p of Some _ \<Rightarrow> Inr (poke p (Some v) h) | None \<Rightarrow> Inl undefined_behaviour)"

definition assign_at :: "ptr \<Rightarrow> 'a \<Rightarrow> 'a memory \<Rightarrow> error + 'a memory" where
  \<comment> \<open>\<open>*p = v\<close>: the target is a live object\<close>
  "assign_at p v h =
     (case slot_at h p of Some (Some _) \<Rightarrow> Inr (poke p (Some v) h) | _ \<Rightarrow> Inl undefined_behaviour)"

definition destroy_at :: "ptr \<Rightarrow> 'a memory \<Rightarrow> error + 'a memory" where
  "destroy_at p h =
     (case slot_at h p of Some (Some _) \<Rightarrow> Inr (poke p None h) | _ \<Rightarrow> Inl undefined_behaviour)"

definition copy_construct :: "ptr \<Rightarrow> ptr \<Rightarrow> 'a memory \<Rightarrow> error + 'a memory" where
  \<comment> \<open>\<open>new (dst) T(*src)\<close>\<close>
  "copy_construct dst src h = and_then (load src h) (\<lambda>v. construct_at dst v h)"

definition move_construct :: "'a elem_type \<Rightarrow> ptr \<Rightarrow> ptr \<Rightarrow> 'a memory \<Rightarrow> error + 'a memory" where
  \<comment> \<open>\<open>new (dst) T(std::move(*src))\<close>\<close>
  "move_construct T dst src h =
     and_then (load src h) (\<lambda>v.
     and_then (construct_at dst v h) (\<lambda>h.
     Inr (poke src (Some (moved_from T v)) h)))"

definition copy_assign :: "ptr \<Rightarrow> ptr \<Rightarrow> 'a memory \<Rightarrow> error + 'a memory" where
  \<comment> \<open>\<open>*dst = *src\<close>\<close>
  "copy_assign dst src h = and_then (load src h) (\<lambda>v. assign_at dst v h)"

definition move_assign :: "'a elem_type \<Rightarrow> ptr \<Rightarrow> ptr \<Rightarrow> 'a memory \<Rightarrow> error + 'a memory" where
  \<comment> \<open>\<open>*dst = std::move(*src)\<close>\<close>
  "move_assign T dst src h =
     and_then (load src h) (\<lambda>v.
     and_then (assign_at dst v h) (\<lambda>h.
     Inr (poke src (Some (moved_from T v)) h)))"

datatype 'a arg = Value 'a | Ref ptr

text \<open>
  An argument of type \<open>const T&\<close> or \<open>T&&\<close> refers either to an object outside the modelled
  memory (\<open>Value\<close>: a temporary, a local of the caller) or to a live object in it
  (\<open>Ref\<close>: for one, an element of the vector itself).
\<close>

definition read_arg :: "'a arg \<Rightarrow> 'a memory \<Rightarrow> error + 'a" where
  \<comment> \<open>the value that \<open>T(value)\<close> copies\<close>
  "read_arg a h = (case a of Value x \<Rightarrow> Inr x | Ref q \<Rightarrow> load q h)"

definition construct_copy :: "ptr \<Rightarrow> 'a arg \<Rightarrow> 'a memory \<Rightarrow> error + 'a memory" where
  \<comment> \<open>\<open>new (p) T(value)\<close> for \<open>const T& value\<close>\<close>
  "construct_copy p a h = (case a of Value x \<Rightarrow> construct_at p x h | Ref q \<Rightarrow> copy_construct p q h)"

definition construct_move :: "'a elem_type \<Rightarrow> ptr \<Rightarrow> 'a arg \<Rightarrow> 'a memory \<Rightarrow> error + 'a memory" where
  \<comment> \<open>\<open>new (p) T(std::move(value))\<close> for \<open>T&& value\<close>\<close>
  "construct_move T p a h = (case a of Value x \<Rightarrow> construct_at p x h | Ref q \<Rightarrow> move_construct T p q h)"

subsection \<open>The algorithms of the standard library that the source calls\<close>

fun uninitialized_value_construct_n :: "'a elem_type \<Rightarrow> ptr \<Rightarrow> nat \<Rightarrow> 'a memory \<Rightarrow> error + 'a memory" where
  "uninitialized_value_construct_n T p 0 h = Inr h"
| "uninitialized_value_construct_n T p (Suc n) h =
     and_then (construct_at p (value_init T) h) (uninitialized_value_construct_n T (ptr_add p 1) n)"

fun uninitialized_copy_n :: "ptr \<Rightarrow> nat \<Rightarrow> ptr \<Rightarrow> 'a memory \<Rightarrow> error + 'a memory" where
  "uninitialized_copy_n src 0 dst h = Inr h"
| "uninitialized_copy_n src (Suc n) dst h =
     and_then (copy_construct dst src h) (uninitialized_copy_n (ptr_add src 1) n (ptr_add dst 1))"

fun uninitialized_move_n :: "'a elem_type \<Rightarrow> ptr \<Rightarrow> nat \<Rightarrow> ptr \<Rightarrow> 'a memory \<Rightarrow> error + 'a memory" where
  "uninitialized_move_n T src 0 dst h = Inr h"
| "uninitialized_move_n T src (Suc n) dst h =
     and_then (move_construct T dst src h) (uninitialized_move_n T (ptr_add src 1) n (ptr_add dst 1))"

fun destroy_n :: "ptr \<Rightarrow> nat \<Rightarrow> 'a memory \<Rightarrow> error + 'a memory" where
  "destroy_n p 0 h = Inr h"
| "destroy_n p (Suc n) h = and_then (destroy_at p h) (destroy_n (ptr_add p 1) n)"

fun copy_n :: "ptr \<Rightarrow> nat \<Rightarrow> ptr \<Rightarrow> 'a memory \<Rightarrow> error + 'a memory" where
  "copy_n src 0 dst h = Inr h"
| "copy_n src (Suc n) dst h =
     and_then (copy_assign dst src h) (copy_n (ptr_add src 1) n (ptr_add dst 1))"

fun move_n :: "'a elem_type \<Rightarrow> ptr \<Rightarrow> nat \<Rightarrow> ptr \<Rightarrow> 'a memory \<Rightarrow> error + 'a memory" where
  \<comment> \<open>the loop of \<open>std::move(first, last, d_first)\<close>, \<open>n = last - first\<close>\<close>
  "move_n T firstp 0 d_first h = Inr h"
| "move_n T firstp (Suc n) d_first h =
     and_then (move_assign T d_first firstp h) (move_n T (ptr_add firstp 1) n (ptr_add d_first 1))"

fun ptr_sub :: "ptr \<Rightarrow> nat \<Rightarrow> error + ptr" where
  "ptr_sub nullptr n = (if n = 0 then Inr nullptr else Inl undefined_behaviour)"
| "ptr_sub (Ptr b i) n = (if n \<le> i then Inr (Ptr b (i - n)) else Inl undefined_behaviour)"

fun move_backward_n :: "'a elem_type \<Rightarrow> ptr \<Rightarrow> nat \<Rightarrow> ptr \<Rightarrow> 'a memory \<Rightarrow> error + 'a memory" where
  \<comment> \<open>the loop of \<open>std::move_backward(first, last, d_last)\<close>: \<open>*(--d_last) = std::move(*(--last))\<close>,
      \<open>n = last - first\<close> times\<close>
  "move_backward_n T lastp 0 d_last h = Inr h"
| "move_backward_n T lastp (Suc n) d_last h =
     and_then (ptr_sub d_last 1) (\<lambda>d_last.
     and_then (ptr_sub lastp 1) (\<lambda>lastp.
     and_then (move_assign T d_last lastp h) (move_backward_n T lastp n d_last)))"

definition std_move :: "'a elem_type \<Rightarrow> ptr \<Rightarrow> ptr \<Rightarrow> ptr \<Rightarrow> 'a memory \<Rightarrow> error + 'a memory" where
  "std_move T firstp lastp d_first h =
     and_then (ptr_diff lastp firstp) (\<lambda>n. move_n T firstp n d_first h)"

definition move_backward :: "'a elem_type \<Rightarrow> ptr \<Rightarrow> ptr \<Rightarrow> ptr \<Rightarrow> 'a memory \<Rightarrow> error + 'a memory" where
  "move_backward T firstp lastp d_last h =
     and_then (ptr_diff lastp firstp) (\<lambda>n. move_backward_n T lastp n d_last h)"

definition uninitialized_move :: "'a elem_type \<Rightarrow> ptr \<Rightarrow> ptr \<Rightarrow> ptr \<Rightarrow> 'a memory \<Rightarrow> error + 'a memory" where
  "uninitialized_move T firstp lastp dst h =
     and_then (ptr_diff lastp firstp) (\<lambda>n. uninitialized_move_n T firstp n dst h)"

definition uninitialized_copy :: "ptr \<Rightarrow> ptr \<Rightarrow> ptr \<Rightarrow> 'a memory \<Rightarrow> error + 'a memory" where
  "uninitialized_copy firstp lastp dst h =
     and_then (ptr_diff lastp firstp) (\<lambda>n. uninitialized_copy_n firstp n dst h)"

section \<open>RawMemory\<close>

record RawMemory =
  m_buffer :: ptr
  m_capacity :: nat

text \<open>
  Objects that a call reaches by reference are cells of a store, so that two references
  may name the same object. \<open>std::swap(x, y)\<close> is its three moves.
\<close>

definition RawMemory_Swap :: "nat \<Rightarrow> nat \<Rightarrow> (nat \<Rightarrow> RawMemory) \<Rightarrow> (nat \<Rightarrow> RawMemory)" where
  "RawMemory_Swap this other rs =
     (let tmp = m_buffer (rs this);
          rs = rs(this := (rs this)\<lparr>m_buffer := m_buffer (rs other)\<rparr>);
          rs = rs(other := (rs other)\<lparr>m_buffer := tmp\<rparr>);
          tmp = m_capacity (rs this);
          rs = rs(this := (rs this)\<lparr>m_capacity := m_capacity (rs other)\<rparr>);
          rs = rs(other := (rs other)\<lparr>m_capacity := tmp\<rparr>)
      in rs)"

definition RawMemory_move_assign :: "nat \<Rightarrow> nat \<Rightarrow> (nat \<Rightarrow> RawMemory) \<Rightarrow> (nat \<Rightarrow> RawMemory)" where
  \<comment> \<open>\<open>RawMemory& operator=(RawMemory&& rhs)\<close>\<close>
  "RawMemory_move_assign this rhs rs = RawMemory_Swap this rhs rs"

definition RawMemory_move_ctor :: "RawMemory \<Rightarrow> RawMemory \<times> RawMemory" where
  \<comment> \<open>\<open>RawMemory(RawMemory&& other)\<close>: the new object and what is left of \<open>other\<close>\<close>
  "RawMemory_move_ctor other =
     (let b = m_buffer other;
          other = other\<lparr>m_buffer := nullptr\<rparr>;
          this = \<lparr>m_buffer = b, m_capacity = m_capacity other\<rparr>;
          other = other\<lparr>m_capacity := 0\<rparr>
      in (this, other))"

definition GetAddress :: "RawMemory \<Rightarrow> ptr" where
  "GetAddress r = m_buffer r"

definition RawMemory_Capacity :: "RawMemory \<Rightarrow> nat" where
  "RawMemory_Capacity r = m_capacity r"

definition RawMemory_plus :: "RawMemory \<Rightarrow> nat \<Rightarrow> error + ptr" where
  \<comment> \<open>\<open>T* operator+(size_t offset)\<close>\<close>
  "RawMemory_plus r offset =
     and_then (assert (offset \<le> m_capacity r)) (\<lambda>_. Inr (ptr_add (m_buffer r) offset))"

definition RawMemory_index :: "RawMemory \<Rightarrow> nat \<Rightarrow> error + ptr" where
  \<comment> \<open>\<open>T& operator[](size_t index)\<close>: the object referred to is \<open>buffer_[index]\<close>\<close>
  "RawMemory_index r index =
     and_then (assert (index < m_capacity r)) (\<lambda>_. Inr (ptr_add (m_buffer r) index))"

definition RawMemory_ctor :: "'a elem_type \<Rightarrow> nat \<Rightarrow> 'a memory \<Rightarrow> error + (RawMemory \<times> 'a memory)" where
  \<comment> \<open>\<open>explicit RawMemory(size_t capacity)\<close>\<close>
  "RawMemory_ctor T capacity h =
     and_then (Allocate T capacity h) (\<lambda>(p, h). Inr (\<lparr>m_buffer = p, m_capacity = capacity\<rparr>, h))"

definition RawMemory_dtor :: "RawMemory \<Rightarrow> 'a memory \<Rightarrow> error + 'a memory" where
  "RawMemory_dtor r h = Deallocate (m_buffer r) h"

definition RawMemory_Swap_local :: "RawMemory \<Rightarrow> RawMemory \<Rightarrow> RawMemory \<times> RawMemory" where
  \<comment> \<open>\<open>a.Swap(b)\<close> for two objects that are not the same, one of them a local\<close>
  "RawMemory_Swap_local a b = (let rs = RawMemory_Swap 0 1 ((\<lambda>_. a)(1 := b)) in (rs 0, rs 1))"

section \<open>Vector: moving and swapping\<close>

record Vector =
  m_data :: RawMemory
  m_size :: nat

definition Size :: "Vector \<Rightarrow> nat" where
  "Size v = m_size v"

definition Capacity :: "Vector \<Rightarrow> nat" where
  "Capacity v = RawMemory_Capacity (m_data v)"

definition Vector_begin :: "Vector \<Rightarrow> ptr" where
  "Vector_begin v = GetAddress (m_data v)"

definition data_of :: "(nat \<Rightarrow> Vector) \<Rightarrow> (nat \<Rightarrow> RawMemory)" where
  \<comment> \<open>the \<open>data_\<close> members of the vectors of a store\<close>
  "data_of vs = (\<lambda>i. m_data (vs i))"

definition with_data :: "(nat \<Rightarrow> Vector) \<Rightarrow> (nat \<Rightarrow> RawMemory) \<Rightarrow> (nat \<Rightarrow> Vector)" where
  "with_data vs rs = (\<lambda>i. (vs i)\<lparr>m_data := rs i\<rparr>)"

definition Vector_move_ctor :: "Vector \<Rightarrow> Vector \<times> Vector" where
  \<comment> \<open>\<open>Vector(Vector&& other)\<close>: the new vector and what is left of \<open>other\<close>\<close>
  "Vector_move_ctor other =
     (let (d, od) = RawMemory_move_ctor (m_data other);
          other = other\<lparr>m_data := od\<rparr>;
          this = \<lparr>m_data = d, m_size = m_size other\<rparr>;
          other = other\<lparr>m_size := 0\<rparr>
      in (this, other))"

definition Vector_move_assign :: "nat \<Rightarrow> nat \<Rightarrow> (nat \<Rightarrow> Vector) \<Rightarrow> (nat \<Rightarrow> Vector)" where
  \<comment> \<open>\<open>Vector& operator=(Vector&& rhs)\<close>\<close>
  "Vector_move_assign this rhs vs =
     (let vs = with_data vs (RawMemory_move_assign this rhs (data_of vs));
          vs = vs(this := (vs this)\<lparr>m_size := m_size (vs rhs)\<rparr>);
          vs = vs(rhs := (vs rhs)\<lparr>m_size := 0\<rparr>)
      in vs)"

definition Vector_Swap :: "nat \<Rightarrow> nat \<Rightarrow> (nat \<Rightarrow> Vector) \<Rightarrow> (nat \<Rightarrow> Vector)" where
  "Vector_Swap this other vs =
     (let vs = with_data vs (RawMemory_Swap this other (data_of vs));
          tmp = m_size (vs this);
          vs = vs(this := (vs this)\<lparr>m_size := m_size (vs other)\<rparr>);
          vs = vs(other := (vs other)\<lparr>m_size := tmp\<rparr>)
      in vs)"

section \<open>Vector: construction, access and mutation\<close>

definition Vector_default :: Vector where
  \<comment> \<open>\<open>Vector() = default\<close>\<close>
  "Vector_default = \<lparr>m_data = \<lparr>m_buffer = nullptr, m_capacity = 0\<rparr>, m_size = 0\<rparr>"

definition Vector_end :: "Vector \<Rightarrow> error + ptr" where
  "Vector_end v = RawMemory_plus (m_data v) (m_size v)"

definition Vector_index :: "Vector \<Rightarrow> nat \<Rightarrow> 'a memory \<Rightarrow> error + 'a" where
  \<comment> \<open>\<open>operator[]\<close>, read\<close>
  "Vector_index v index h =
     and_then (assert (index < m_size v)) (\<lambda>_.
     and_then (RawMemory_index (m_data v) index) (\<lambda>p. load p h))"

definition to_list :: "'a memory \<Rightarrow> Vector \<Rightarrow> (error + 'a) list" where
  \<comment> \<open>\<open>v[0], ..., v[Size() - 1]\<close>\<close>
  "to_list h v = map (\<lambda>i. Vector_index v i h) [0..<Size v]"

definition Back :: "Vector \<Rightarrow> error + ptr" where
  \<comment> \<open>the object \<open>*std::prev(end())\<close>\<close>
  "Back v = and_then (Vector_end v) (\<lambda>e. ptr_sub e 1)"

definition Vector_ctor :: "'a elem_type \<Rightarrow> nat \<Rightarrow> 'a memory \<Rightarrow> error + (Vector \<times> 'a memory)" where
  \<comment> \<open>\<open>explicit Vector(size_t size)\<close>\<close>
  "Vector_ctor T n h =
     and_then (RawMemory_ctor T n h) (\<lambda>(d, h).
     let this = \<lparr>m_data = d, m_size = n\<rparr> in
     and_then (uninitialized_value_construct_n T (Vector_begin this) n h) (\<lambda>h.
     Inr (this, h)))"

definition Vector_copy_ctor :: "'a elem_type \<Rightarrow> Vector \<Rightarrow> 'a memory \<Rightarrow> error + (Vector \<times> 'a memory)" where
  \<comment> \<open>\<open>Vector(const Vector& other)\<close>\<close>
  "Vector_copy_ctor T other h =
     and_then (RawMemory_ctor T (m_size other) h) (\<lambda>(d, h).
     let this = \<lparr>m_data = d, m_size = m_size other\<rparr> in
     and_then (uninitialized_copy_n (Vector_begin other) (Size other) (Vector_begin this) h) (\<lambda>h.
     Inr (this, h)))"

definition Vector_dtor :: "Vector \<Rightarrow> 'a memory \<Rightarrow> error + 'a memory" where
  \<comment> \<open>\<open>~Vector()\<close>, then \<open>~RawMemory()\<close> of \<open>data_\<close>\<close>
  "Vector_dtor v h =
     and_then (destroy_n (Vector_begin v) (m_size v) h) (\<lambda>h. RawMemory_dtor (m_data v) h)"

definition Vector_Swap_local :: "Vector \<Rightarrow> Vector \<Rightarrow> Vector \<times> Vector" where
  \<comment> \<open>\<open>a.Swap(b)\<close> for two objects that are not the same, one of them a local\<close>
  "Vector_Swap_local a b = (let vs = Vector_Swap 0 1 ((\<lambda>_. a)(1 := b)) in (vs 0, vs 1))"

definition UninitializedMoveOrCopy :: "'a elem_type \<Rightarrow> ptr \<Rightarrow> ptr \<Rightarrow> ptr \<Rightarrow> 'a memory \<Rightarrow> error + 'a memory" where
  "UninitializedMoveOrCopy T firstp lastp destination h =
     (if move_if_noexcept T then uninitialized_move T firstp lastp destination h
      else uninitialized_copy firstp lastp destination h)"

definition UninitializedMoveOrCopyN :: "'a elem_type \<Rightarrow> ptr \<Rightarrow> nat \<Rightarrow> ptr \<Rightarrow> 'a memory \<Rightarrow> error + 'a memory" where
  "UninitializedMoveOrCopyN T firstp num destination h =
     (if move_if_noexcept T then uninitialized_move_n T firstp num destination h
      else uninitialized_copy_n firstp num destination h)"

definition Reserve :: "'a elem_type \<Rightarrow> nat \<Rightarrow> Vector \<Rightarrow> 'a memory \<Rightarrow> error + (Vector \<times> 'a memory)" where
  "Reserve T new_capacity v h =
     (if new_capacity \<le> Capacity v then Inr (v, h)
      else
        and_then (RawMemory_ctor T new_capacity h) (\<lambda>(new_data, h).
        and_then (if move_if_noexcept T
                  then uninitialized_move_n T (GetAddress (m_data v)) (m_size v) (GetAddress new_data) h
                  else uninitialized_copy_n (GetAddress (m_data v)) (m_size v) (GetAddress new_data) h) (\<lambda>h.
        and_then (destroy_n (GetAddress (m_data v)) (m_size v) h) (\<lambda>h.
        let (d, new_data) = RawMemory_Swap_local (m_data v) new_data in
        and_then (RawMemory_dtor new_data h) (\<lambda>h.
        Inr (v\<lparr>m_data := d\<rparr>, h))))))"

definition Resize :: "'a elem_type \<Rightarrow> nat \<Rightarrow> Vector \<Rightarrow> 'a memory \<Rightarrow> error + (Vector \<times> 'a memory)" where
  "Resize T new_size v h =
     (if new_size = m_size v then Inr (v, h)
      else
        and_then
          (if new_size < m_size v
           then and_then (destroy_n (ptr_add (GetAddress (m_data v)) new_size) (m_size v - new_size) h)
                  (\<lambda>h. Inr (v, h))
           else and_then (Reserve T new_size v h) (\<lambda>(v, h).
                and_then (uninitialized_value_construct_n T
                            (ptr_add (GetAddress (m_data v)) (m_size v)) (new_size - m_size v) h)
                  (\<lambda>h. Inr (v, h))))
          (\<lambda>(v, h). Inr (v\<lparr>m_size := new_size\<rparr>, h)))"

definition PushBack :: "'a elem_type \<Rightarrow> 'a arg \<Rightarrow> Vector \<Rightarrow> 'a memory \<Rightarrow> error + (Vector \<times> 'a memory)" where
  \<comment> \<open>\<open>void PushBack(const T& value)\<close>\<close>
  "PushBack T a v h =
     and_then
       (if Size v = Capacity v
        then
          and_then (RawMemory_ctor T (if m_size v = 0 then 1 else m_size v * 2) h) (\<lambda>(new_data, h).
          and_then (RawMemory_plus new_data (m_size v)) (\<lambda>p.
          and_then (construct_copy p a h) (\<lambda>h.
          and_then (UninitializedMoveOrCopyN T (Vector_begin v) (m_size v) (GetAddress new_data) h) (\<lambda>h.
          and_then (destroy_n (Vector_begin v) (m_size v) h) (\<lambda>h.
          let (d, new_data) = RawMemory_Swap_local (m_data v) new_data in
          and_then (RawMemory_dtor new_data h) (\<lambda>h.
          Inr (v\<lparr>m_data := d\<rparr>, h)))))))
        else
          and_then (RawMemory_plus (m_data v) (m_size v)) (\<lambda>p.
          and_then (construct_copy p a h) (\<lambda>h.
          Inr (v, h))))
       (\<lambda>(v, h). Inr (v\<lparr>m_size := m_size v + 1\<rparr>, h))"

definition PushBack_move :: "'a elem_type \<Rightarrow> 'a arg \<Rightarrow> Vector \<Rightarrow> 'a memory \<Rightarrow> error + (Vector \<times> 'a memory)" where
  \<comment> \<open>\<open>void PushBack(T&& value)\<close>\<close>
  "PushBack_move T a v h =
     and_then
       (if Size v = Capacity v
        then
          and_then (RawMemory_ctor T (if m_size v = 0 then 1 else m_size v * 2) h) (\<lambda>(new_data, h).
          and_then (RawMemory_plus new_data (m_size v)) (\<lambda>p.
          and_then (construct_move T p a h) (\<lambda>h.
          and_then (UninitializedMoveOrCopyN T (Vector_begin v) (m_size v) (GetAddress new_data) h) (\<lambda>h.
          and_then (destroy_n (Vector_begin v) (m_size v) h) (\<lambda>h.
          let (d, new_data) = RawMemory_Swap_local (m_data v) new_data in
          and_then (RawMemory_dtor new_data h) (\<lambda>h.
          Inr (v\<lparr>m_data := d\<rparr>, h)))))))
        else
          and_then (RawMemory_plus (m_data v) (m_size v)) (\<lambda>p.
          and_then (construct_move T p a h) (\<lambda>h.
          Inr (v, h))))
       (\<lambda>(v, h). Inr (v\<lparr>m_size := m_size v + 1\<rparr>, h))"

definition EmplaceBack :: "'a elem_type \<Rightarrow> 'a arg \<Rightarrow> Vector \<Rightarrow> 'a memory \<Rightarrow> error + (ptr \<times> Vector \<times> 'a memory)" where
  \<comment> \<open>\<open>T& EmplaceBack(Args&&... args)\<close> with one argument from which \<open>T\<close> is copied;
      the result refers to \<open>Back()\<close>\<close>
  "EmplaceBack T a v h =
     and_then
       (and_then
          (if Size v = Capacity v
           then
             and_then (RawMemory_ctor T (if m_size v = 0 then 1 else m_size v * 2) h) (\<lambda>(new_data, h).
             and_then (RawMemory_plus new_data (m_size v)) (\<lambda>p.
             and_then (construct_copy p a h) (\<lambda>h.
             and_then (UninitializedMoveOrCopyN T (Vector_begin v) (m_size v) (GetAddress new_data) h) (\<lambda>h.
             and_then (destroy_n (GetAddress (m_data v)) (m_size v) h) (\<lambda>h.
             let (d, new_data) = RawMemory_Swap_local (m_data v) new_data in
             and_then (RawMemory_dtor new_data h) (\<lambda>h.
             Inr (v\<lparr>m_data := d\<rparr>, h)))))))
           else
             and_then (RawMemory_plus (m_data v) (m_size v)) (\<lambda>p.
             and_then (construct_copy p a h) (\<lambda>h.
             Inr (v, h))))
          (\<lambda>(v, h). Inr (v\<lparr>m_size := m_size v + 1\<rparr>, h)))
       (\<lambda>(v, h). and_then (Back v) (\<lambda>r. Inr (r, v, h)))"

definition Emplace :: "'a elem_type \<Rightarrow> ptr \<Rightarrow> 'a arg \<Rightarrow> Vector \<Rightarrow> 'a memory \<Rightarrow> error + (ptr \<times> Vector \<times> 'a memory)" where
  \<comment> \<open>\<open>iterator Emplace(const_iterator pos, Args&&... args)\<close> with one argument from which
      \<open>T\<close> is copied\<close>
  "Emplace T pos a v h =
     and_then (Vector_end v) (\<lambda>e.
     and_then (assert (ptr_le (Vector_begin v) pos \<and> ptr_le pos e)) (\<lambda>_.
     and_then (ptr_diff pos (Vector_begin v)) (\<lambda>d.
     and_then (RawMemory_plus (m_data v) d) (\<lambda>non_const_pos.
     and_then
       (if Size v = Capacity v
        then
          and_then (RawMemory_ctor T (if m_size v = 0 then 1 else m_size v * 2) h) (\<lambda>(new_data, h).
          and_then (RawMemory_plus new_data d) (\<lambda>it.
          and_then (construct_copy it a h) (\<lambda>h.
          and_then (UninitializedMoveOrCopy T (Vector_begin v) non_const_pos (GetAddress new_data) h) (\<lambda>h.
          and_then (UninitializedMoveOrCopy T non_const_pos e (ptr_add it 1) h) (\<lambda>h.
          and_then (destroy_n (Vector_begin v) (m_size v) h) (\<lambda>h.
          let (d, new_data) = RawMemory_Swap_local (m_data v) new_data in
          and_then (RawMemory_dtor new_data h) (\<lambda>h.
          Inr (it, v\<lparr>m_data := d\<rparr>, h))))))))
        else
          (if pos \<noteq> e
           then
             and_then (RawMemory_plus (m_data v) (m_size v)) (\<lambda>p.
             and_then (Back v) (\<lambda>b.
             and_then (move_construct T p b h) (\<lambda>h.
             and_then (ptr_sub e 1) (\<lambda>l.
             and_then (move_backward T non_const_pos l e h) (\<lambda>h.
             and_then (read_arg a h) (\<lambda>tmp.
             and_then (assign_at non_const_pos tmp h) (\<lambda>h.
             Inr (non_const_pos, v, h))))))))
           else
             and_then (RawMemory_plus (m_data v) (m_size v)) (\<lambda>p.
             and_then (construct_copy p a h) (\<lambda>h.
             Inr (non_const_pos, v, h)))))
       (\<lambda>(it, v, h). Inr (it, v\<lparr>m_size := m_size v + 1\<rparr>, h))))))"

definition Insert :: "'a elem_type \<Rightarrow> ptr \<Rightarrow> 'a arg \<Rightarrow> Vector \<Rightarrow> 'a memory \<Rightarrow> error + (ptr \<times> Vector \<times> 'a memory)" where
  \<comment> \<open>\<open>iterator Insert(const_iterator pos, const T& value)\<close>\<close>
  "Insert T pos a v h = Emplace T pos a v h"

definition PopBack :: "Vector \<Rightarrow> 'a memory \<Rightarrow> error + (Vector \<times> 'a memory)" where
  "PopBack v h =
     and_then (assert (m_size v \<noteq> 0)) (\<lambda>_.
     let v = v\<lparr>m_size := m_size v - 1\<rparr> in
     and_then (destroy_at (ptr_add (GetAddress (m_data v)) (m_size v)) h) (\<lambda>h.
     Inr (v, h)))"

definition ptr_less :: "ptr \<Rightarrow> ptr \<Rightarrow> bool" where
  "ptr_less p q = (ptr_le p q \<and> p \<noteq> q)"

definition Erase :: "'a elem_type \<Rightarrow> ptr \<Rightarrow> Vector \<Rightarrow> 'a memory \<Rightarrow> error + (ptr \<times> Vector \<times> 'a memory)" where
  "Erase T pos v h =
     and_then (Vector_end v) (\<lambda>e.
     and_then (assert (ptr_le (Vector_begin v) pos \<and> ptr_less pos e)) (\<lambda>_.
     and_then (ptr_diff pos (Vector_begin v)) (\<lambda>d.
     and_then (RawMemory_plus (m_data v) d) (\<lambda>it.
     and_then (std_move T (ptr_add it 1) e it h) (\<lambda>h.
     and_then (PopBack v h) (\<lambda>(v, h).
     Inr (it, v, h)))))))"

definition Vector_copy_assign ::
  "'a elem_type \<Rightarrow> nat \<Rightarrow> nat \<Rightarrow> (nat \<Rightarrow> Vector) \<Rightarrow> 'a memory \<Rightarrow>
   error + ((nat \<Rightarrow> Vector) \<times> 'a memory)" where
  \<comment> \<open>\<open>Vector& operator=(const Vector& rhs)\<close>\<close>
  "Vector_copy_assign T this rhs vs h =
     (if this \<noteq> rhs
      then
        (if m_size (vs rhs) > RawMemory_Capacity (m_data (vs this))
         then
           and_then (Vector_copy_ctor T (vs rhs) h) (\<lambda>(new_vector, h).
           let (t, new_vector) = Vector_Swap_local (vs this) new_vector in
           and_then (Vector_dtor new_vector h) (\<lambda>h.
           Inr (vs(this := t), h)))
         else
           and_then (copy_n (GetAddress (m_data (vs rhs))) (min (Size (vs this)) (Size (vs rhs)))
                       (GetAddress (m_data (vs this))) h) (\<lambda>h.
           and_then
             (if Size (vs rhs) < Size (vs this)
              then destroy_n (ptr_add (GetAddress (m_data (vs this))) (Size (vs rhs)))
                     (Size (vs this) - Size (vs rhs)) h
              else uninitialized_copy_n (ptr_add (GetAddress (m_data (vs rhs))) (Size (vs this)))
                     (Size (vs rhs) - Size (vs this))
                     (ptr_add (GetAddress (m_data (vs this))) (Size (vs this))) h) (\<lambda>h.
           Inr (vs(this := (vs this)\<lparr>m_size := m_size (vs rhs)\<rparr>), h))))
      else Inr (vs, h))"

section \<open>The steps that the reallocating branches share\<close>

text \<open>
  \<open>Reserve\<close>, both \<open>PushBack\<close> overloads, \<open>EmplaceBack\<close> and \<open>Emplace\<close> end their reallocating
  branch with the same three steps, and the three appending functions have the same body
  up to the placement \<open>new\<close>. The two definitions below name these shared parts; the
  functions above are proved equal to their combinations before anything is proved of them.
\<close>

definition replace_buffer :: "Vector \<Rightarrow> RawMemory \<Rightarrow> 'a memory \<Rightarrow> error + (Vector \<times> 'a memory)" where
  \<comment> \<open>\<open>std::destroy_n(begin(), size_); data_.Swap(new_data);\<close> and the end of \<open>new_data\<close>'s scope\<close>
  "replace_buffer v new_data h =
     and_then (destroy_n (Vector_begin v) (m_size v) h) (\<lambda>h.
     let (d, new_data) = RawMemory_Swap_local (m_data v) new_data in
     and_then (RawMemory_dtor new_data h) (\<lambda>h.
     Inr (v\<lparr>m_data := d\<rparr>, h)))"

definition grow_with ::
  "('a elem_type \<Rightarrow> ptr \<Rightarrow> 'a arg \<Rightarrow> 'a memory \<Rightarrow> error + 'a memory) \<Rightarrow>
   'a elem_type \<Rightarrow> 'a arg \<Rightarrow> Vector \<Rightarrow> 'a memory \<Rightarrow> error + (Vector \<times> 'a memory)" where
  \<comment> \<open>the body of an appending function; \<open>construct\<close> is its placement \<open>new\<close>\<close>
  "grow_with construct T a v h =
     and_then
       (if Size v = Capacity v
        then
          and_then (RawMemory_ctor T (if m_size v = 0 then 1 else m_size v * 2) h) (\<lambda>(new_data, h).
          and_then (RawMemory_plus new_data (m_size v)) (\<lambda>p.
          and_then (construct T p a h) (\<lambda>h.
          and_then (UninitializedMoveOrCopyN T (Vector_begin v) (m_size v) (GetAddress new_data) h) (\<lambda>h.
          replace_buffer v new_data h))))
        else
          and_then (RawMemory_plus (m_data v) (m_size v)) (\<lambda>p.
          and_then (construct T p a h) (\<lambda>h.
          Inr (v, h))))
       (\<lambda>(v, h). Inr (v\<lparr>m_size := m_size v + 1\<rparr>, h))"

section \<open>Sequences of operations on the vectors of a program\<close>

datatype 'a operation =
    OpReserve nat
  | OpResize nat
  | OpPushBack "'a arg"
  | OpPushBack_move "'a arg"
  | OpEmplaceBack "'a arg"
  | OpEmplace ptr "'a arg"
  | OpInsert ptr "'a arg"
  | OpPopBack
  | OpErase ptr
  | OpCopyAssign nat
  | OpMoveAssign nat
  | OpSwap nat

fun apply_op ::
  "'a elem_type \<Rightarrow> nat \<Rightarrow> 'a operation \<Rightarrow> (nat \<Rightarrow> Vector) \<times> 'a memory \<Rightarrow>
   error + ((nat \<Rightarrow> Vector) \<times> 'a memory)" where
  \<comment> \<open>the member function called on the vector \<open>this\<close> of the store\<close>
  "apply_op T this (OpReserve n) (vs, h) =
     and_then (Reserve T n (vs this) h) (\<lambda>(v, h). Inr (vs(this := v), h))"
| "apply_op T this (OpResize n) (vs, h) =
     and_then (Resize T n (vs this) h) (\<lambda>(v, h). Inr (vs(this := v), h))"
| "apply_op T this (OpPushBack a) (vs, h) =
     and_then (PushBack T a (vs this) h) (\<lambda>(v, h). Inr (vs(this := v), h))"
| "apply_op T this (OpPushBack_move a) (vs, h) =
     and_then (PushBack_move T a (vs this) h) (\<lambda>(v, h). Inr (vs(this := v), h))"
| "apply_op T this (OpEmplaceBack a) (vs, h) =
     and_then (EmplaceBack T a (vs this) h) (\<lambda>(r, v, h). Inr (vs(this := v), h))"
| "apply_op T this (OpEmplace pos a) (vs, h) =
     and_then (Emplace T pos a (vs this) h) (\<lambda>(it, v, h). Inr (vs(this := v), h))"
| "apply_op T this (OpInsert pos a) (vs, h) =
     and_then (Insert T pos a (vs this) h) (\<lambda>(it, v, h). Inr (vs(this := v), h))"
| "apply_op T this OpPopBack (vs, h) =
     and_then (PopBack (vs this) h) (\<lambda>(v, h). Inr (vs(this := v), h))"
| "apply_op T this (OpErase pos) (vs, h) =
     and_then (Erase T pos (vs this) h) (\<lambda>(it, v, h). Inr (vs(this := v), h))"
| "apply_op T this (OpCopyAssign rhs) (vs, h) = Vector_copy_assign T this rhs vs h"
| "apply_op T this (OpMoveAssign rhs) (vs, h) = Inr (Vector_move_assign this rhs vs, h)"
| "apply_op T this (OpSwap other) (vs, h) = Inr (Vector_Swap this other vs, h)"

fun run ::
  "'a elem_type \<Rightarrow> (nat \<times> 'a operation) list \<Rightarrow> (nat \<Rightarrow> Vector) \<times> 'a memory \<Rightarrow>
   error + ((nat \<Rightarrow> Vector) \<times> 'a memory)" where
  "run T [] s = Inr s"
| "run T ((this, op) # ops) s = and_then (apply_op T this op s) (run T ops)"

fun exchanges :: "'a operation \<Rightarrow> bool" where
  \<comment> \<open>the operations that hand a buffer from one vector to another\<close>
  "exchanges (OpMoveAssign rhs) = True"
| "exchanges (OpSwap other) = True"
| "exchanges _ = False"

section \<open>The invariant of a vector\<close>

definition set_block :: "nat \<Rightarrow> 'a option list \<Rightarrow> 'a memory \<Rightarrow> 'a memory" where
  "set_block b xs h = h\<lparr>blocks := (blocks h)[b := xs]\<rparr>"

definition live :: "'a option list \<Rightarrow> bool" where
  "live xs = list_all (\<lambda>s. s \<noteq> None) xs"

definition valid :: "'a memory \<Rightarrow> Vector \<Rightarrow> bool" where
  \<comment> \<open>\<open>data_\<close> owns a block in use of \<open>capacity_\<close> slots (none for capacity 0) whose first
      \<open>size_\<close> slots hold live objects\<close>
  "valid h v =
     (case m_buffer (m_data v) of
        nullptr \<Rightarrow> m_capacity (m_data v) = 0 \<and> m_size v = 0
      | Ptr b i \<Rightarrow>
          i = 0 \<and> b < length (blocks h) \<and> b \<in> set (in_use h) \<and>
          0 < m_capacity (m_data v) \<and>
          length (blocks h ! b) = m_capacity (m_data v) \<and>
          m_size v \<le> m_capacity (m_data v) \<and>
          live (take (m_size v) (blocks h ! b)))"

definition refers_into :: "'a arg \<Rightarrow> Vector \<Rightarrow> bool" where
  \<comment> \<open>the argument is a reference to a slot of the buffer of \<open>v\<close>\<close>
  "refers_into a v = (case a of Ref (Ptr c j) \<Rightarrow> m_buffer (m_data v) = Ptr c 0 | _ \<Rightarrow> False)"

definition fits :: "'a elem_type \<Rightarrow> nat \<Rightarrow> bool" where
  \<comment> \<open>the byte count of \<open>n\<close> objects of type \<open>T\<close> is a value of \<open>size_t\<close>\<close>
  "fits T n = (0 < size_of T \<and> n * size_of T < 2 ^ 64)"

section \<open>Element types and vectors for the examples\<close>

definition int_type :: "int elem_type" where
  \<comment> \<open>\<open>int\<close>, of four bytes: a moved-from \<open>int\<close> keeps its value\<close>
  "int_type = \<lparr>value_init = 0, moved_from = (\<lambda>x. x), move_if_noexcept = True, size_of = 4\<rparr>"

definition moving_type :: "int elem_type" where
  \<comment> \<open>a class of four bytes around an \<open>int\<close> whose move constructor and move assignment leave
      \<open>-1\<close> in their source\<close>
  "moving_type = \<lparr>value_init = 0, moved_from = (\<lambda>x. - 1), move_if_noexcept = True, size_of = 4\<rparr>"

definition mem56 :: "int memory" where
  "mem56 = \<lparr>blocks = [[Some 5, Some 6]], free_slots = 10, in_use = [0]\<rparr>"

definition vec56 :: Vector where
  \<comment> \<open>the vector \<open>[5, 6]\<close> of capacity 2 in \<open>mem56\<close>\<close>
  "vec56 = \<lparr>m_data = \<lparr>m_buffer = Ptr 0 0, m_capacity = 2\<rparr>, m_size = 2\<rparr>"

definition mem123 :: "int memory" where
  "mem123 = \<lparr>blocks = [[Some 1, Some 2, Some 3, None]], free_slots = 10, in_use = [0]\<rparr>"

definition vec123 :: Vector where
  \<comment> \<open>the vector \<open>[1, 2, 3]\<close> of capacity 4 in \<open>mem123\<close>\<close>
  "vec123 = \<lparr>m_data = \<lparr>m_buffer = Ptr 0 0, m_capacity = 4\<rparr>, m_size = 3\<rparr>"

definition mem1992 :: "int memory" where
  "mem1992 = \<lparr>blocks = [[Some 1, Some 99, Some 2, Some 3]], free_slots = 10, in_use = [0]\<rparr>"

definition vec1992 :: Vector where
  \<comment> \<open>the vector \<open>[1, 99, 2, 3]\<close> of capacity 4 in \<open>mem1992\<close>\<close>
  "vec1992 = \<lparr>m_data = \<lparr>m_buffer = Ptr 0 0, m_capacity = 4\<rparr>, m_size = 4\<rparr>"

definition mem_two :: "int memory" where
  "mem_two = \<lparr>blocks = [[Some 5, Some 6], [Some 1, Some 2, Some 3, None]], free_slots = 10, in_use = [0, 1]\<rparr>"

definition vecs_two :: "nat \<Rightarrow> Vector" where
  \<comment> \<open>vector 2 is \<open>[5, 6]\<close> of capacity 2, vector 3 is \<open>[1, 2, 3]\<close> of capacity 4, in \<open>mem_two\<close>\<close>
  "vecs_two = (\<lambda>_. Vector_default)
     (2 := \<lparr>m_data = \<lparr>m_buffer = Ptr 0 0, m_capacity = 2\<rparr>, m_size = 2\<rparr>,
      3 := \<lparr>m_data = \<lparr>m_buffer = Ptr 1 0, m_capacity = 4\<rparr>, m_size = 3\<rparr>)"

section \<open>Basic facts\<close>

lemma and_then_simps [simp]:
  "and_then (Inl e) f = Inl e"
  "and_then (Inr x) f = f x"
  by (simp_all add: and_then_def)

lemma and_then_eq_Inr: "and_then m f = Inr y \<longleftrightarrow> (\<exists>x. m = Inr x \<and> f x = Inr y)"
  by (cases m) simp_all

lemma RawMemory_Swap_this: "RawMemory_Swap this other rs this = rs other"
  by (simp add: RawMemory_Swap_def Let_def)

lemma RawMemory_Swap_other: "RawMemory_Swap this other rs other = rs this"
  by (simp add: RawMemory_Swap_def Let_def)

lemma RawMemory_Swap_frame: "k \<noteq> this \<Longrightarrow> k \<noteq> other \<Longrightarrow> RawMemory_Swap this other rs k = rs k"
  by (simp add: RawMemory_Swap_def Let_def)

lemma Reserve_alt:
  "Reserve T n v h =
     (if n \<le> Capacity v then Inr (v, h)
      else and_then (RawMemory_ctor T n h) (\<lambda>(new_data, h).
           and_then (UninitializedMoveOrCopyN T (GetAddress (m_data v)) (m_size v) (GetAddress new_data) h)
             (\<lambda>h. replace_buffer v new_data h)))"
  by (simp add: Reserve_def UninitializedMoveOrCopyN_def replace_buffer_def Vector_begin_def)

lemma PushBack_grow_with: "PushBack T a v h = grow_with (\<lambda>T. construct_copy) T a v h"
  by (simp add: PushBack_def grow_with_def replace_buffer_def)

lemma PushBack_move_grow_with: "PushBack_move T a v h = grow_with construct_move T a v h"
  by (simp add: PushBack_move_def grow_with_def replace_buffer_def)

lemma EmplaceBack_grow_with:
  "EmplaceBack T a v h =
     and_then (grow_with (\<lambda>T. construct_copy) T a v h) (\<lambda>(v, h). and_then (Back v) (\<lambda>r. Inr (r, v, h)))"
  by (simp add: EmplaceBack_def grow_with_def replace_buffer_def Vector_begin_def)

lemma replace_buffer_then:
  "and_then (replace_buffer v nd h) (\<lambda>(v, h). Inr (it, v, h)) =
     and_then (destroy_n (Vector_begin v) (m_size v) h) (\<lambda>h.
     let (d, new_data) = RawMemory_Swap_local (m_data v) nd in
     and_then (RawMemory_dtor new_data h) (\<lambda>h.
     Inr (it, v\<lparr>m_data := d\<rparr>, h)))"
  by (simp add: replace_buffer_def and_then_def split: sum.splits prod.splits)

lemma Emplace_alt:
  "Emplace T pos a v h =
     and_then (Vector_end v) (\<lambda>e.
     and_then (assert (ptr_le (Vector_begin v) pos \<and> ptr_le pos e)) (\<lambda>_.
     and_then (ptr_diff pos (Vector_begin v)) (\<lambda>d.
     and_then (RawMemory_plus (m_data v) d) (\<lambda>non_const_pos.
     and_then
       (if Size v = Capacity v
        then
          and_then (RawMemory_ctor T (if m_size v = 0 then 1 else m_size v * 2) h) (\<lambda>(new_data, h).
          and_then (RawMemory_plus new_data d) (\<lambda>it.
          and_then (construct_copy it a h) (\<lambda>h.
          and_then (UninitializedMoveOrCopy T (Vector_begin v) non_const_pos (GetAddress new_data) h) (\<lambda>h.
          and_then (UninitializedMoveOrCopy T non_const_pos e (ptr_add it 1) h) (\<lambda>h.
          and_then (replace_buffer v new_data h) (\<lambda>(v, h).
          Inr (it, v, h)))))))
        else
          (if pos \<noteq> e
           then
             and_then (RawMemory_plus (m_data v) (m_size v)) (\<lambda>p.
             and_then (Back v) (\<lambda>b.
             and_then (move_construct T p b h) (\<lambda>h.
             and_then (ptr_sub e 1) (\<lambda>l.
             and_then (move_backward T non_const_pos l e h) (\<lambda>h.
             and_then (read_arg a h) (\<lambda>tmp.
             and_then (assign_at non_const_pos tmp h) (\<lambda>h.
             Inr (non_const_pos, v, h))))))))
           else
             and_then (RawMemory_plus (m_data v) (m_size v)) (\<lambda>p.
             and_then (construct_copy p a h) (\<lambda>h.
             Inr (non_const_pos, v, h)))))
       (\<lambda>(it, v, h). Inr (it, v\<lparr>m_size := m_size v + 1\<rparr>, h))))))"
  by (simp only: Emplace_def replace_buffer_then)

section \<open>Memory cells and the library loops\<close>

lemma blocks_set_block [simp]: "blocks (set_block b xs h) = (blocks h)[b := xs]"
  by (simp add: set_block_def)

lemma free_slots_set_block [simp]: "free_slots (set_block b xs h) = free_slots h"
  by (simp add: set_block_def)

lemma in_use_set_block [simp]: "in_use (set_block b xs h) = in_use h"
  by (simp add: set_block_def)

lemma set_block_twice [simp]: "set_block b xs (set_block b ys h) = set_block b xs h"
  by (simp add: set_block_def)

lemma set_block_same: "b < length (blocks h) \<Longrightarrow> xs = blocks h ! b \<Longrightarrow> set_block b xs h = h"
  by (simp add: set_block_def)

lemma poke_Ptr [simp]: "poke (Ptr b i) s h = set_block b ((blocks h ! b)[i := s]) h"
  by (simp add: set_block_def)

declare poke.simps(2) [simp del]

lemma load_Ptr:
  "b < length (blocks h) \<Longrightarrow> i < length (blocks h ! b) \<Longrightarrow> blocks h ! b ! i = Some v \<Longrightarrow>
   load (Ptr b i) h = Inr v"
  by (simp add: load_def)

lemma construct_at_Ptr:
  "b < length (blocks h) \<Longrightarrow> i < length (blocks h ! b) \<Longrightarrow>
   construct_at (Ptr b i) v h = Inr (set_block b ((blocks h ! b)[i := Some v]) h)"
  by (simp add: construct_at_def)

lemma assign_at_Ptr:
  "b < length (blocks h) \<Longrightarrow> i < length (blocks h ! b) \<Longrightarrow> blocks h ! b ! i \<noteq> None \<Longrightarrow>
   assign_at (Ptr b i) v h = Inr (set_block b ((blocks h ! b)[i := Some v]) h)"
  by (auto simp add: assign_at_def)

lemma destroy_at_Ptr:
  "b < length (blocks h) \<Longrightarrow> i < length (blocks h ! b) \<Longrightarrow> blocks h ! b ! i \<noteq> None \<Longrightarrow>
   destroy_at (Ptr b i) h = Inr (set_block b ((blocks h ! b)[i := None]) h)"
  by (auto simp add: destroy_at_def)

lemma live_simps [simp]:
  "live []"
  "live (x # xs) \<longleftrightarrow> x \<noteq> None \<and> live xs"
  "live (xs @ ys) \<longleftrightarrow> live xs \<and> live ys"
  by (simp_all add: live_def)

lemma live_nth: "live xs \<Longrightarrow> i < length xs \<Longrightarrow> xs ! i \<noteq> None"
  by (simp add: live_def list_all_length)

lemma take_Suc_update: "i < length xs \<Longrightarrow> take (Suc i) (xs[i := x]) = take i xs @ [x]"
  by (simp add: take_Suc_conv_app_nth)

lemma live_take_drop_Suc:
  "i < length xs \<Longrightarrow> live (take (Suc n) (drop i xs)) \<longleftrightarrow> xs ! i \<noteq> None \<and> live (take n (drop (Suc i) xs))"
  by (simp add: Cons_nth_drop_Suc [symmetric])

lemma uninitialized_value_construct_n_block:
  "b < length (blocks h) \<Longrightarrow> i + n \<le> length (blocks h ! b) \<Longrightarrow>
   uninitialized_value_construct_n T (Ptr b i) n h =
     Inr (set_block b (take i (blocks h ! b) @ replicate n (Some (value_init T)) @ drop (i + n) (blocks h ! b)) h)"
proof (induction n arbitrary: i h)
  case 0
  then show ?case by (simp add: set_block_same)
next
  case (Suc n)
  then show ?case
    by (simp add: construct_at_Ptr take_Suc_update)
qed

lemma destroy_n_block:
  "b < length (blocks h) \<Longrightarrow> i + n \<le> length (blocks h ! b) \<Longrightarrow>
   live (take n (drop i (blocks h ! b))) \<Longrightarrow>
   destroy_n (Ptr b i) n h =
     Inr (set_block b (take i (blocks h ! b) @ replicate n None @ drop (i + n) (blocks h ! b)) h)"
proof (induction n arbitrary: i h)
  case 0
  then show ?case by (simp add: set_block_same)
next
  case (Suc n)
  then show ?case
    by (simp add: destroy_at_Ptr take_Suc_update live_take_drop_Suc)
qed

lemma uninitialized_copy_n_block:
  "b < length (blocks h) \<Longrightarrow> c < length (blocks h) \<Longrightarrow> b \<noteq> c \<Longrightarrow>
   i + n \<le> length (blocks h ! b) \<Longrightarrow> j + n \<le> length (blocks h ! c) \<Longrightarrow>
   live (take n (drop i (blocks h ! b))) \<Longrightarrow>
   uninitialized_copy_n (Ptr b i) n (Ptr c j) h =
     Inr (set_block c (take j (blocks h ! c) @ take n (drop i (blocks h ! b)) @ drop (j + n) (blocks h ! c)) h)"
proof (induction n arbitrary: i j h)
  case 0
  then show ?case by (simp add: set_block_same)
next
  case (Suc n)
  from Suc.prems obtain v where v: "blocks h ! b ! i = Some v"
    by (auto simp: live_take_drop_Suc)
  with Suc show ?case
    by (simp add: copy_construct_def load_Ptr construct_at_Ptr take_Suc_update live_take_drop_Suc
        Cons_nth_drop_Suc [symmetric])
qed


lemma set_block_swap_cancel [simp]:
  "b \<noteq> c \<Longrightarrow> set_block c x (set_block b y (set_block c z h)) = set_block c x (set_block b y h)"
  by (simp add: set_block_def list_update_swap [of b c])

lemma set_block_swap: "b \<noteq> c \<Longrightarrow> set_block c x (set_block b y h) = set_block b y (set_block c x h)"
  by (simp add: set_block_def list_update_swap [of b c])

lemma uninitialized_move_n_block:
  "b < length (blocks h) \<Longrightarrow> c < length (blocks h) \<Longrightarrow> b \<noteq> c \<Longrightarrow>
   i + n \<le> length (blocks h ! b) \<Longrightarrow> j + n \<le> length (blocks h ! c) \<Longrightarrow>
   live (take n (drop i (blocks h ! b))) \<Longrightarrow>
   uninitialized_move_n T (Ptr b i) n (Ptr c j) h =
     Inr (set_block c (take j (blocks h ! c) @ take n (drop i (blocks h ! b)) @ drop (j + n) (blocks h ! c))
         (set_block b (take i (blocks h ! b) @
                       map (map_option (moved_from T)) (take n (drop i (blocks h ! b))) @
                       drop (i + n) (blocks h ! b)) h))"
proof (induction n arbitrary: i j h)
  case 0
  then show ?case by (simp add: set_block_same)
next
  case (Suc n)
  from Suc.prems obtain v where v: "blocks h ! b ! i = Some v"
    by (auto simp: live_take_drop_Suc)
  with Suc show ?case
    by (simp add: move_construct_def load_Ptr construct_at_Ptr poke_Ptr take_Suc_update live_take_drop_Suc
        Cons_nth_drop_Suc [symmetric] set_block_swap [of c b])
qed

lemma copy_n_block:
  "b < length (blocks h) \<Longrightarrow> c < length (blocks h) \<Longrightarrow> b \<noteq> c \<Longrightarrow>
   i + n \<le> length (blocks h ! b) \<Longrightarrow> j + n \<le> length (blocks h ! c) \<Longrightarrow>
   live (take n (drop i (blocks h ! b))) \<Longrightarrow> live (take n (drop j (blocks h ! c))) \<Longrightarrow>
   copy_n (Ptr b i) n (Ptr c j) h =
     Inr (set_block c (take j (blocks h ! c) @ take n (drop i (blocks h ! b)) @ drop (j + n) (blocks h ! c)) h)"
proof (induction n arbitrary: i j h)
  case 0
  then show ?case by (simp add: set_block_same)
next
  case (Suc n)
  from Suc.prems obtain v where v: "blocks h ! b ! i = Some v"
    by (auto simp: live_take_drop_Suc)
  with Suc show ?case
    by (simp add: copy_assign_def load_Ptr assign_at_Ptr take_Suc_update live_take_drop_Suc
        Cons_nth_drop_Suc [symmetric])
qed

lemma live_map_option [simp]: "live (map (map_option f) xs) = live xs"
  by (induction xs) auto

lemma live_replicate_Some [simp]: "live (replicate n (Some x))"
  by (induction n) auto

lemma live_take_mono: "live (take n xs) \<Longrightarrow> m \<le> n \<Longrightarrow> live (take m xs)"
  by (metis live_simps(3) min.absorb_iff2 take_take append_take_drop_id min.commute)

lemma Allocate_ok:
  "0 < n \<Longrightarrow> fits T n \<Longrightarrow> n \<le> free_slots h \<Longrightarrow>
   Allocate T n h = Inr (Ptr (length (blocks h)) 0,
     h\<lparr>blocks := blocks h @ [replicate n None], free_slots := free_slots h - n,
      in_use := length (blocks h) # in_use h\<rparr>)"
  by (simp add: Allocate_def operator_new_def fits_def)

lemma RawMemory_Swap_local_eq [simp]: "RawMemory_Swap_local a b = (b, a)"
  using RawMemory_Swap_this [of 0 1 "(\<lambda>_. a)(1 := b)"] RawMemory_Swap_other [of 0 1 "(\<lambda>_. a)(1 := b)"]
  by (simp add: RawMemory_Swap_local_def Let_def)

lemma UninitializedMoveOrCopyN_block:
  assumes "b < length (blocks h)" "c < length (blocks h)" "b \<noteq> c"
    "i + n \<le> length (blocks h ! b)" "j + n \<le> length (blocks h ! c)"
    "live (take n (drop i (blocks h ! b)))"
  shows "\<exists>B'. UninitializedMoveOrCopyN T (Ptr b i) n (Ptr c j) h =
     Inr (set_block c (take j (blocks h ! c) @ take n (drop i (blocks h ! b)) @ drop (j + n) (blocks h ! c))
           (set_block b B' h)) \<and>
     length B' = length (blocks h ! b) \<and> live (take n (drop i B')) \<and>
     take i B' = take i (blocks h ! b) \<and> drop (i + n) B' = drop (i + n) (blocks h ! b)"
proof (cases "move_if_noexcept T")
  case True
  let ?B = "take i (blocks h ! b) @ map (map_option (moved_from T)) (take n (drop i (blocks h ! b))) @
            drop (i + n) (blocks h ! b)"
  have "UninitializedMoveOrCopyN T (Ptr b i) n (Ptr c j) h =
     Inr (set_block c (take j (blocks h ! c) @ take n (drop i (blocks h ! b)) @ drop (j + n) (blocks h ! c))
           (set_block b ?B h))"
    using assms True by (simp add: UninitializedMoveOrCopyN_def uninitialized_move_n_block)
  moreover have "length ?B = length (blocks h ! b)" using assms by simp
  moreover have "live (take n (drop i ?B))" using assms by simp
  moreover have "take i ?B = take i (blocks h ! b)" using assms by simp
  moreover have "drop (i + n) ?B = drop (i + n) (blocks h ! b)" using assms by simp
  ultimately show ?thesis by blast
next
  case False
  have "UninitializedMoveOrCopyN T (Ptr b i) n (Ptr c j) h =
     Inr (set_block c (take j (blocks h ! c) @ take n (drop i (blocks h ! b)) @ drop (j + n) (blocks h ! c))
           (set_block b (blocks h ! b) h))"
    using assms False by (simp add: UninitializedMoveOrCopyN_def uninitialized_copy_n_block set_block_same)
  then show ?thesis using assms by blast
qed

lemma replace_buffer_null:
  "m_buffer (m_data v) = nullptr \<Longrightarrow> m_size v = 0 \<Longrightarrow>
   replace_buffer v new_data h = Inr (v\<lparr>m_data := new_data\<rparr>, h)"
  by (simp add: replace_buffer_def Vector_begin_def GetAddress_def RawMemory_dtor_def Deallocate_def)

lemma replace_buffer_block:
  assumes "m_buffer (m_data v) = Ptr b 0" "b < length (blocks h)" "b \<in> set (in_use h)"
    "m_size v \<le> length (blocks h ! b)" "live (take (m_size v) (blocks h ! b))"
  shows "replace_buffer v new_data h =
     Inr (v\<lparr>m_data := new_data\<rparr>,
          (set_block b [] h)\<lparr>free_slots := free_slots h + length (blocks h ! b),
                             in_use := removeAll b (in_use h)\<rparr>)"
  using assms
  by (auto simp add: replace_buffer_def Vector_begin_def GetAddress_def RawMemory_dtor_def Deallocate_def
      destroy_n_block set_block_def)

lemma map_nth_upt_take: "n \<le> length xs \<Longrightarrow> map (\<lambda>i. f (xs ! i)) [0..<n] = map f (take n xs)"
  by (simp add: list_eq_iff_nth_eq)

lemma Vector_index_block:
  assumes "m_buffer (m_data v) = Ptr b 0" "b < length (blocks h)"
    "length (blocks h ! b) = m_capacity (m_data v)" "m_size v \<le> m_capacity (m_data v)"
    "live (take (m_size v) (blocks h ! b))" "i < m_size v"
  shows "Vector_index v i h = Inr (the (blocks h ! b ! i))"
proof -
  have "take (m_size v) (blocks h ! b) ! i \<noteq> None"
    using assms by (intro live_nth) simp_all
  then obtain x where "blocks h ! b ! i = Some x" using assms by auto
  then show ?thesis
    using assms by (simp add: Vector_index_def assert_def RawMemory_index_def load_def)
qed

lemma to_list_block:
  assumes "m_buffer (m_data v) = Ptr b 0" "b < length (blocks h)"
    "length (blocks h ! b) = m_capacity (m_data v)" "m_size v \<le> m_capacity (m_data v)"
    "live (take (m_size v) (blocks h ! b))"
  shows "to_list h v = map (\<lambda>s. Inr (the s)) (take (m_size v) (blocks h ! b))"
proof -
  have "to_list h v = map (\<lambda>i. Inr (the (blocks h ! b ! i))) [0..<m_size v]"
    using assms by (simp add: to_list_def Size_def Vector_index_block)
  then show ?thesis using assms by (simp add: list_eq_iff_nth_eq)
qed

lemma to_list_empty: "m_size v = 0 \<Longrightarrow> to_list h v = []"
  by (simp add: to_list_def Size_def)

section \<open>Reallocation\<close>

lemma valid_nullptr: "m_buffer (m_data v) = nullptr \<Longrightarrow> valid h v \<longleftrightarrow> m_capacity (m_data v) = 0 \<and> m_size v = 0"
  by (simp add: valid_def)

lemma valid_Ptr:
  "m_buffer (m_data v) = Ptr b i \<Longrightarrow>
   valid h v \<longleftrightarrow> i = 0 \<and> b < length (blocks h) \<and> b \<in> set (in_use h) \<and>
          0 < m_capacity (m_data v) \<and>
          length (blocks h ! b) = m_capacity (m_data v) \<and>
          m_size v \<le> m_capacity (m_data v) \<and>
          live (take (m_size v) (blocks h ! b))"
  by (simp add: valid_def)

lemma RawMemory_ctor_ok:
  "0 < n \<Longrightarrow> fits T n \<Longrightarrow> n \<le> free_slots h \<Longrightarrow>
   RawMemory_ctor T n h = Inr (\<lparr>m_buffer = Ptr (length (blocks h)) 0, m_capacity = n\<rparr>,
     h\<lparr>blocks := blocks h @ [replicate n None], free_slots := free_slots h - n,
      in_use := length (blocks h) # in_use h\<rparr>)"
  by (simp add: RawMemory_ctor_def Allocate_ok)

lemma Reserve_grows:
  assumes "valid h v" "Capacity v < n" "n \<le> free_slots h" "fits T n"
  shows "\<exists>v' h'. Reserve T n v h = Inr (v', h') \<and> Capacity v' = n \<and> Size v' = Size v \<and>
           to_list h' v' = to_list h v \<and> valid h' v' \<and>
           m_buffer (m_data v') = Ptr (length (blocks h)) 0 \<and> length (blocks h') = Suc (length (blocks h))
           \<and> free_slots h' = free_slots h - n + Capacity v"
proof -
  let ?L = "length (blocks h)"
  let ?h1 = "h\<lparr>blocks := blocks h @ [replicate n None], free_slots := free_slots h - n,
      in_use := length (blocks h) # in_use h\<rparr>"
  let ?nd = "\<lparr>m_buffer = Ptr ?L 0, m_capacity = n\<rparr>"
  from assms have n: "0 < n" by simp
  have ctor: "RawMemory_ctor T n h = Inr (?nd, ?h1)"
    using n assms by (simp add: RawMemory_ctor_ok)
  show ?thesis
  proof (cases "m_buffer (m_data v)")
    case nullptr
    with assms have z: "m_size v = 0" "m_capacity (m_data v) = 0" by (simp_all add: valid_nullptr)
    have "Reserve T n v h = Inr (v\<lparr>m_data := ?nd\<rparr>, ?h1)"
      using assms nullptr z
      by (simp add: Reserve_alt ctor replace_buffer_null GetAddress_def UninitializedMoveOrCopyN_def)
    moreover have "valid ?h1 (v\<lparr>m_data := ?nd\<rparr>)"
      using n z by (simp add: valid_def)
    ultimately show ?thesis
      using z by (simp add: Capacity_def RawMemory_Capacity_def Size_def to_list_empty)
  next
    case (Ptr b i)
    with assms have v: "i = 0" "b < ?L" "0 < m_capacity (m_data v)"
      "length (blocks h ! b) = m_capacity (m_data v)" "m_size v \<le> m_capacity (m_data v)"
      "live (take (m_size v) (blocks h ! b))" "b \<in> set (in_use h)"
      by (simp_all add: valid_Ptr)
    let ?B = "blocks h ! b"
    have h1: "b < length (blocks ?h1)" "?L < length (blocks ?h1)" "b \<noteq> ?L"
      "blocks ?h1 ! b = ?B" "blocks ?h1 ! ?L = replicate n None"
      using v by (simp_all add: nth_append)
    have sz: "m_size v \<le> n" using v assms by (simp add: Capacity_def RawMemory_Capacity_def)
    obtain B' where
      tr: "UninitializedMoveOrCopyN T (Ptr b 0) (m_size v) (Ptr ?L 0) ?h1 =
             Inr (set_block ?L (take (m_size v) ?B @ replicate (n - m_size v) None) (set_block b B' ?h1))"
      and B': "length B' = length ?B" "live (take (m_size v) B')"
      using UninitializedMoveOrCopyN_block [of b ?h1 ?L 0 "m_size v" 0 T] h1 v sz
      by auto
    let ?h2 = "set_block ?L (take (m_size v) ?B @ replicate (n - m_size v) None) (set_block b B' ?h1)"
    have h2: "b < length (blocks ?h2)" "blocks ?h2 ! b = B'"
      using v by simp_all
    have rb: "replace_buffer v ?nd ?h2 =
        Inr (v\<lparr>m_data := ?nd\<rparr>, (set_block b [] ?h2)\<lparr>free_slots := free_slots ?h2 + length (blocks ?h2 ! b),
                                                  in_use := removeAll b (in_use ?h2)\<rparr>)"
      using Ptr v B' h2 by (intro replace_buffer_block) simp_all
    let ?h3 = "(set_block b [] ?h2)\<lparr>free_slots := free_slots ?h2 + length (blocks ?h2 ! b),
                                    in_use := removeAll b (in_use ?h2)\<rparr>"
    let ?v' = "v\<lparr>m_data := ?nd\<rparr>"
    have res: "Reserve T n v h = Inr (?v', ?h3)"
      using assms Ptr \<open>i = 0\<close>
      by (simp add: Reserve_alt ctor GetAddress_def tr rb del: set_block_swap_cancel)
    have h3: "blocks ?h3 ! ?L = take (m_size v) ?B @ replicate (n - m_size v) None" "?L < length (blocks ?h3)"
      using v by simp_all
    have val: "valid ?h3 ?v'"
      using h3 v n sz by (simp add: valid_def)
    have "to_list ?h3 ?v' = map (\<lambda>s. Inr (the s)) (take (m_size ?v') (blocks ?h3 ! ?L))"
      using h3 v sz by (intro to_list_block) simp_all
    also have "\<dots> = map (\<lambda>s. Inr (the s)) (take (m_size v) ?B)"
      using v by (simp add: h3)
    also have "\<dots> = to_list h v"
      using Ptr v by (intro to_list_block [symmetric]) simp_all
    finally have tl: "to_list ?h3 ?v' = to_list h v" .
    show ?thesis
      using res val tl v B' by (simp add: Capacity_def RawMemory_Capacity_def Size_def)
  qed
qed

lemma slot_at_alloc:
  "slot_at h q \<noteq> None \<Longrightarrow>
   slot_at (h\<lparr>blocks := blocks h @ [xs], free_slots := k, in_use := u\<rparr>) q = slot_at h q"
  by (cases q) (auto simp: nth_append split: if_splits)

lemma construct_copy_alloc:
  assumes "read_arg a h = Inr x"
  shows "construct_copy p a (h\<lparr>blocks := blocks h @ [xs], free_slots := k, in_use := u\<rparr>) =
         construct_at p x (h\<lparr>blocks := blocks h @ [xs], free_slots := k, in_use := u\<rparr>)"
proof (cases a)
  case (Value y)
  with assms show ?thesis by (simp add: construct_copy_def read_arg_def)
next
  case (Ref q)
  with assms have "slot_at h q = Some (Some x)"
    by (auto simp: read_arg_def load_def split: option.splits)
  then have "load q (h\<lparr>blocks := blocks h @ [xs], free_slots := k, in_use := u\<rparr>) = Inr x"
    by (simp add: load_def slot_at_alloc)
  with Ref show ?thesis by (simp add: construct_copy_def copy_construct_def)
qed

lemma construct_copy_read:
  "read_arg a h = Inr x \<Longrightarrow> construct_copy p a h = construct_at p x h"
  by (cases a) (simp_all add: construct_copy_def read_arg_def copy_construct_def)

lemma grow_with_realloc:
  fixes v :: Vector and h :: "'a memory"
  defines "N \<equiv> (if m_size v = 0 then 1 else m_size v * 2)"
  defines "h1 \<equiv> h\<lparr>blocks := blocks h @ [replicate N None], free_slots := free_slots h - N,
      in_use := length (blocks h) # in_use h\<rparr>"
  assumes "valid h v" "Size v = Capacity v" "N \<le> free_slots h"
    and con: "construct T (Ptr (length (blocks h)) (m_size v)) a h1 =
              construct_at (Ptr (length (blocks h)) (m_size v)) x h1"
    and fits: "fits T N"
  shows "\<exists>v' h'. grow_with construct T a v h = Inr (v', h') \<and> Capacity v' = N \<and>
           Size v' = Size v + 1 \<and> to_list h' v' = to_list h v @ [Inr x] \<and> valid h' v' \<and>
           m_buffer (m_data v') = Ptr (length (blocks h)) 0"
proof -
  let ?L = "length (blocks h)"
  let ?c = "m_size v"
  let ?nd = "\<lparr>m_buffer = Ptr ?L 0, m_capacity = N\<rparr>"
  let ?R = "(replicate N None)[?c := Some x]"
  have N: "0 < N" "?c < N" by (simp_all add: N_def)
  have cap: "m_capacity (m_data v) = ?c" using assms by (simp add: Size_def Capacity_def RawMemory_Capacity_def)
  have ctor: "RawMemory_ctor T N h = Inr (?nd, h1)"
    using N(1) fits assms(5) unfolding h1_def by (rule RawMemory_ctor_ok)
  have plus: "RawMemory_plus ?nd ?c = Inr (Ptr ?L ?c)"
    using N by (simp add: RawMemory_plus_def assert_def)
  have h1: "length (blocks h1) = Suc ?L" "blocks h1 ! ?L = replicate N None"
    "\<And>b. b < ?L \<Longrightarrow> blocks h1 ! b = blocks h ! b"
    by (simp_all add: h1_def nth_append)
  have rel: "in_use h1 = length (blocks h) # in_use h" by (simp add: h1_def)
  let ?h2 = "set_block ?L ?R h1"
  have c2: "construct T (Ptr ?L ?c) a h1 = Inr ?h2"
    using N by (simp add: con construct_at_Ptr h1)
  have gw: "grow_with construct T a v h =
     and_then
       (and_then (RawMemory_ctor T N h) (\<lambda>(new_data, h).
          and_then (RawMemory_plus new_data ?c) (\<lambda>p.
          and_then (construct T p a h) (\<lambda>h.
          and_then (UninitializedMoveOrCopyN T (m_buffer (m_data v)) ?c (m_buffer new_data) h) (\<lambda>h.
          replace_buffer v new_data h)))))
       (\<lambda>(v, h). Inr (v\<lparr>m_size := m_size v + 1\<rparr>, h))"
    using assms(4) by (simp add: grow_with_def N_def GetAddress_def Vector_begin_def)
  show ?thesis
  proof (cases "m_buffer (m_data v)")
    case nullptr
    with assms have z: "?c = 0" by (simp add: valid_nullptr)
    have tr0: "UninitializedMoveOrCopyN T nullptr ?c (Ptr ?L 0) ?h2 = Inr ?h2"
      using z by (simp add: UninitializedMoveOrCopyN_def)
    have rb0: "replace_buffer v ?nd ?h2 = Inr (v\<lparr>m_data := ?nd\<rparr>, ?h2)"
      using nullptr z by (simp add: replace_buffer_null)
    have "grow_with construct T a v h = Inr (v\<lparr>m_data := ?nd, m_size := ?c + 1\<rparr>, ?h2)"
      by (simp add: gw ctor plus c2 nullptr tr0 rb0)
    then have "grow_with construct T a v h = Inr (v\<lparr>m_data := ?nd, m_size := 1\<rparr>, ?h2)"
      using z by simp
    moreover have "blocks ?h2 ! ?L = [Some x]" using z by (simp add: h1 N_def)
    moreover then have "valid ?h2 (v\<lparr>m_data := ?nd, m_size := 1\<rparr>)"
      using z by (simp add: valid_def N_def h1 rel)
    moreover have "to_list ?h2 (v\<lparr>m_data := ?nd, m_size := 1\<rparr>) = [Inr x]"
      using z by (simp add: to_list_def Size_def Vector_index_def assert_def RawMemory_index_def N_def load_def h1)
    ultimately show ?thesis
      using z by (simp add: Capacity_def RawMemory_Capacity_def Size_def to_list_empty)
  next
    case (Ptr b i)
    with assms(3) have "i = 0 \<and> b < ?L \<and> b \<in> set (in_use h) \<and> 0 < m_capacity (m_data v) \<and>
      length (blocks h ! b) = m_capacity (m_data v) \<and> m_size v \<le> m_capacity (m_data v) \<and>
      live (take ?c (blocks h ! b))"
      by (simp only: valid_Ptr)
    then have v: "i = 0" "b < ?L" "0 < ?c" "length (blocks h ! b) = ?c" "live (take ?c (blocks h ! b))"
      "b \<in> set (in_use h)"
      unfolding cap by blast+
    let ?B = "blocks h ! b"
    have h2: "b < length (blocks ?h2)" "?L < length (blocks ?h2)" "b \<noteq> ?L"
      "blocks ?h2 ! b = ?B" "blocks ?h2 ! ?L = ?R"
      using v by (simp_all add: h1)
    obtain B' where
      tr: "UninitializedMoveOrCopyN T (Ptr b 0) ?c (Ptr ?L 0) ?h2 =
             Inr (set_block ?L (?B @ drop ?c ?R) (set_block b B' ?h2))"
      and B': "length B' = length ?B" "live (take ?c B')"
      using UninitializedMoveOrCopyN_block [of b ?h2 ?L 0 ?c 0 T] h2 v N
      by auto
    let ?h3 = "set_block ?L (?B @ drop ?c ?R) (set_block b B' ?h2)"
    have h3: "b < length (blocks ?h3)" "blocks ?h3 ! b = B'"
      using v by (simp_all add: h1)
    let ?v' = "v\<lparr>m_data := ?nd\<rparr>"
    define h4 where "h4 = (set_block b [] ?h3)\<lparr>free_slots := free_slots ?h3 + length (blocks ?h3 ! b),
                                             in_use := removeAll b (in_use ?h3)\<rparr>"
    have rb: "replace_buffer v ?nd ?h3 = Inr (?v', h4)"
      unfolding h4_def using Ptr v B' h3 by (intro replace_buffer_block) (simp_all add: rel)
    let ?v'' = "v\<lparr>m_data := ?nd, m_size := ?c + 1\<rparr>"
    have res: "grow_with construct T a v h = Inr (?v'', h4)"
      using Ptr \<open>i = 0\<close>
      by (simp add: gw ctor plus c2 tr rb del: set_block_swap_cancel)
    have dr: "drop ?c ?R = Some x # replicate (N - Suc ?c) None"
      using N by (simp add: drop_update_swap [symmetric] Cons_nth_drop_Suc [symmetric] flip: replicate_Suc)
    have h4: "blocks h4 ! ?L = ?B @ Some x # replicate (N - Suc ?c) None" "?L < length (blocks h4)"
      "?L \<in> set (in_use h4)"
      using v by (simp_all add: h4_def h1 dr rel)
    have len: "length (blocks h4 ! ?L) = N"
      using v N by (simp add: h4)
    have tk: "take (Suc ?c) (blocks h4 ! ?L) = ?B @ [Some x]"
      using v by (simp add: h4)
    have val: "valid h4 ?v''"
      using v N h4(2,3) by (simp add: valid_def len tk)
    have "to_list h4 ?v'' = map (\<lambda>s. Inr (the s)) (take (m_size ?v'') (blocks h4 ! ?L))"
      using h4(2) v N by (intro to_list_block) (simp_all add: len tk)
    also have "\<dots> = map (\<lambda>s. Inr (the s)) ?B @ [Inr x]"
      by (simp add: tk)
    also have "map (\<lambda>s. Inr (the s)) ?B = to_list h v"
      using Ptr v cap to_list_block [of v b h] by simp
    finally have tl: "to_list h4 ?v'' = to_list h v @ [Inr x]" .
    show ?thesis
      using res val tl by (simp add: Capacity_def RawMemory_Capacity_def Size_def)
  qed
qed

lemma grow_with_in_place:
  assumes "valid h v" "Size v \<noteq> Capacity v"
    and con: "\<And>p. construct T p a h = construct_at p x h"
  shows "\<exists>v' h'. grow_with construct T a v h = Inr (v', h') \<and> Capacity v' = Capacity v \<and>
           Size v' = Size v + 1 \<and> to_list h' v' = to_list h v @ [Inr x] \<and> valid h' v' \<and>
           m_buffer (m_data v') = m_buffer (m_data v) \<and> length (blocks h') = length (blocks h) \<and>
           free_slots h' = free_slots h"
proof (cases "m_buffer (m_data v)")
  case nullptr
  with assms show ?thesis by (simp add: valid_nullptr Size_def Capacity_def RawMemory_Capacity_def)
next
  case (Ptr b i)
  let ?c = "m_size v"
  let ?B = "blocks h ! b"
  from Ptr assms(1) have "i = 0 \<and> b < length (blocks h) \<and> b \<in> set (in_use h) \<and>
      0 < m_capacity (m_data v) \<and>
      length ?B = m_capacity (m_data v) \<and> ?c \<le> m_capacity (m_data v) \<and> live (take ?c ?B)"
    by (simp only: valid_Ptr)
  then have v: "i = 0" "b < length (blocks h)" "length ?B = m_capacity (m_data v)"
    "?c \<le> m_capacity (m_data v)" "live (take ?c ?B)" "b \<in> set (in_use h)"
    by blast+
  have lt: "?c < m_capacity (m_data v)"
    using v assms(2) by (simp add: Size_def Capacity_def RawMemory_Capacity_def)
  define h' where "h' = set_block b (?B[?c := Some x]) h"
  let ?v' = "v\<lparr>m_size := ?c + 1\<rparr>"
  have c: "construct T (Ptr b ?c) a h = Inr h'"
    using v lt by (simp add: con construct_at_Ptr h'_def)
  have res: "grow_with construct T a v h = Inr (?v', h')"
    using assms(2) Ptr v(1) lt
    by (simp add: grow_with_def RawMemory_plus_def assert_def c)
  have h': "blocks h' ! b = ?B[?c := Some x]" "length (blocks h') = length (blocks h)"
    "free_slots h' = free_slots h" "in_use h' = in_use h"
    using v by (simp_all add: h'_def)
  have tk: "take (Suc ?c) (blocks h' ! b) = take ?c ?B @ [Some x]"
    using v lt by (simp add: h'(1-3) take_Suc_update)
  have val: "valid h' ?v'"
    using Ptr v lt by (simp add: valid_def h'(2) tk) (simp add: h')
  have "to_list h' ?v' = map (\<lambda>s. Inr (the s)) (take (m_size ?v') (blocks h' ! b))"
    using Ptr v lt by (intro to_list_block) (simp_all add: h'(2) tk, simp_all add: h')
  also have "\<dots> = map (\<lambda>s. Inr (the s)) (take ?c ?B) @ [Inr x]"
    by (simp add: tk)
  also have "map (\<lambda>s. Inr (the s)) (take ?c ?B) = to_list h v"
    using Ptr v to_list_block [of v b h] by simp
  finally have tl: "to_list h' ?v' = to_list h v @ [Inr x]" .
  show ?thesis
    using res val tl h' by (simp add: Capacity_def RawMemory_Capacity_def Size_def)
qed


lemma valid_default: "valid h Vector_default"
  by (simp add: valid_def Vector_default_def)

lemma live_drop: "live xs \<Longrightarrow> live (drop n xs)"
  by (metis append_take_drop_id live_simps(3))

lemma live_take: "live xs \<Longrightarrow> live (take n xs)"
  by (metis append_take_drop_id live_simps(3))

lemma length_to_list [simp]: "length (to_list h v) = Size v"
  by (simp add: to_list_def)

lemma valid_PtrE:
  assumes "valid h v" "0 < m_capacity (m_data v)"
  obtains b where "m_buffer (m_data v) = Ptr b 0" "b < length (blocks h)"
    "length (blocks h ! b) = m_capacity (m_data v)" "m_size v \<le> m_capacity (m_data v)"
    "live (take (m_size v) (blocks h ! b))" "b \<in> set (in_use h)"
proof (cases "m_buffer (m_data v)")
  case nullptr
  with assms show ?thesis by (simp add: valid_nullptr)
next
  case (Ptr b i)
  with assms(1) have "i = 0 \<and> b < length (blocks h) \<and> b \<in> set (in_use h) \<and> 0 < m_capacity (m_data v) \<and>
      length (blocks h ! b) = m_capacity (m_data v) \<and> m_size v \<le> m_capacity (m_data v) \<and>
      live (take (m_size v) (blocks h ! b))"
    by (simp only: valid_Ptr)
  with Ptr that show ?thesis by blast
qed

lemma valid_size_le: "valid h v \<Longrightarrow> m_size v \<le> m_capacity (m_data v)"
  by (cases "m_buffer (m_data v)") (auto simp: valid_def)

lemma Reserve_valid:
  assumes "valid h v" "n \<le> Capacity v \<or> n \<le> free_slots h \<and> fits T n"
  shows "\<exists>v' h'. Reserve T n v h = Inr (v', h') \<and> valid h' v' \<and> Size v' = Size v \<and>
           to_list h' v' = to_list h v \<and> n \<le> Capacity v' \<and> Capacity v \<le> Capacity v'"
proof (cases "n \<le> Capacity v")
  case True
  with assms show ?thesis by (simp add: Reserve_def)
next
  case False
  with assms Reserve_grows [OF assms(1), of n T] show ?thesis by fastforce
qed

lemma move_assign_block:
  assumes "b < length (blocks h)" "i < length (blocks h ! b)" "j < length (blocks h ! b)"
    "blocks h ! b ! j = Some x" "blocks h ! b ! i \<noteq> None"
  shows "move_assign T (Ptr b i) (Ptr b j) h =
     Inr (set_block b ((blocks h ! b)[i := Some x, j := Some (moved_from T x)]) h)"
  using assms by (simp add: move_assign_def load_Ptr assign_at_Ptr)

lemma move_n_shift_left:
  "b < length (blocks h) \<Longrightarrow> i + n < length (blocks h ! b) \<Longrightarrow>
   live (take (Suc n) (drop i (blocks h ! b))) \<Longrightarrow>
   move_n T (Ptr b (Suc i)) n (Ptr b i) h =
     Inr (set_block b (take i (blocks h ! b) @ take n (drop (Suc i) (blocks h ! b)) @
            [if n = 0 then blocks h ! b ! i else map_option (moved_from T) (blocks h ! b ! (i + n))] @
            drop (Suc (i + n)) (blocks h ! b)) h)"
proof (induction n arbitrary: i h)
  case 0
  then show ?case by (simp add: set_block_same id_take_nth_drop [symmetric])
next
  case (Suc n)
  let ?B = "blocks h ! b"
  from Suc.prems have lv: "?B ! i \<noteq> None" "?B ! Suc i \<noteq> None"
    "live (take n (drop (Suc (Suc i)) ?B))"
    by (simp_all add: live_take_drop_Suc)
  then obtain x where x: "?B ! Suc i = Some x" by auto
  let ?B1 = "?B[i := Some x, Suc i := Some (moved_from T x)]"
  let ?h1 = "set_block b ?B1 h"
  have ma: "move_assign T (Ptr b i) (Ptr b (Suc i)) h = Inr ?h1"
    using Suc.prems lv x by (intro move_assign_block) simp_all
  have h1: "b < length (blocks ?h1)" "blocks ?h1 ! b = ?B1"
    using Suc.prems by simp_all
  have l1: "live (take (Suc n) (drop (Suc i) ?B1))"
    using Suc.prems lv by (simp add: live_take_drop_Suc)
  have ih: "move_n T (Ptr b (Suc (Suc i))) n (Ptr b (Suc i)) ?h1 =
     Inr (set_block b (take (Suc i) ?B1 @ take n (drop (Suc (Suc i)) ?B1) @
            [if n = 0 then ?B1 ! Suc i else map_option (moved_from T) (?B1 ! (Suc i + n))] @
            drop (Suc (Suc i + n)) ?B1) ?h1)"
    using Suc.IH [of ?h1 "Suc i"] h1 l1 Suc.prems by simp
  have t1: "take (Suc i) ?B1 = take i ?B @ [Some x]"
    using Suc.prems by (simp add: take_Suc_conv_app_nth)
  have t2: "take (Suc n) (drop (Suc i) ?B) = Some x # take n (drop (Suc (Suc i)) ?B)"
    using Suc.prems x by (simp add: Cons_nth_drop_Suc [symmetric])
  have t3: "(if n = 0 then ?B1 ! Suc i else map_option (moved_from T) (?B1 ! (Suc i + n))) =
        map_option (moved_from T) (?B ! (i + Suc n))"
    using Suc.prems x by simp
  show ?case
    using Suc.prems
    by (simp add: ma ih t1 t2 t3 del: list_update.simps)
qed


lemma Vector_end_valid:
  "valid h v \<Longrightarrow> Vector_end v = Inr (ptr_add (m_buffer (m_data v)) (m_size v))"
  by (simp add: Vector_end_def RawMemory_plus_def assert_def valid_size_le)

lemma Vector_Swap_this: "Vector_Swap this other vs this = vs other"
  by (cases "vs other")
     (simp add: Vector_Swap_def with_data_def data_of_def RawMemory_Swap_this Let_def)

lemma Vector_Swap_other: "Vector_Swap this other vs other = vs this"
  by (cases "vs this")
     (simp add: Vector_Swap_def with_data_def data_of_def RawMemory_Swap_this RawMemory_Swap_other Let_def)

lemma Vector_Swap_frame: "k \<noteq> this \<Longrightarrow> k \<noteq> other \<Longrightarrow> Vector_Swap this other vs k = vs k"
  by (simp add: Vector_Swap_def with_data_def data_of_def RawMemory_Swap_frame Let_def)

lemma Vector_Swap_local_eq [simp]: "Vector_Swap_local a b = (b, a)"
  using Vector_Swap_this [of 0 1 "(\<lambda>_. a)(1 := b)"] Vector_Swap_other [of 0 1 "(\<lambda>_. a)(1 := b)"]
  by (simp add: Vector_Swap_local_def Let_def)

lemma Vector_dtor_valid:
  assumes "valid h v"
  shows "\<exists>h'. Vector_dtor v h = Inr h' \<and> length (blocks h') = length (blocks h) \<and>
           (\<forall>c. m_buffer (m_data v) \<noteq> Ptr c 0 \<longrightarrow>
                blocks h' ! c = blocks h ! c \<and> (c \<in> set (in_use h') \<longleftrightarrow> c \<in> set (in_use h))) \<and>
           (\<forall>c. m_buffer (m_data v) = Ptr c 0 \<longrightarrow> blocks h' ! c = [] \<and> c \<notin> set (in_use h'))"
proof (cases "m_buffer (m_data v)")
  case nullptr
  with assms show ?thesis
    by (simp add: valid_nullptr Vector_dtor_def Vector_begin_def GetAddress_def RawMemory_dtor_def Deallocate_def)
next
  case (Ptr b i)
  with assms have "i = 0 \<and> b < length (blocks h) \<and> b \<in> set (in_use h) \<and> 0 < m_capacity (m_data v) \<and>
      length (blocks h ! b) = m_capacity (m_data v) \<and> m_size v \<le> m_capacity (m_data v) \<and>
      live (take (m_size v) (blocks h ! b))"
    by (simp only: valid_Ptr)
  then have v: "i = 0" "b < length (blocks h)" "b \<in> set (in_use h)"
    "m_size v \<le> length (blocks h ! b)" "live (take (m_size v) (blocks h ! b))"
    by simp_all
  from replace_buffer_block [of v b h, OF _ v(2-5), of "m_data v"] Ptr v(1)
  have "Vector_dtor v h = Inr ((set_block b [] h)\<lparr>free_slots := free_slots h + length (blocks h ! b),
      in_use := removeAll b (in_use h)\<rparr>)"
    by (auto simp add: replace_buffer_def Vector_dtor_def and_then_eq_Inr)
  with Ptr v(1,2) show ?thesis by auto
qed


lemma Vector_copy_ctor_valid:
  assumes "valid h other" "m_size other \<le> free_slots h" "fits T (m_size other)"
  shows "\<exists>v' h'. Vector_copy_ctor T other h = Inr (v', h') \<and> valid h' v' \<and>
           m_size v' = m_size other \<and> m_capacity (m_data v') = m_size other \<and>
           to_list h' v' = to_list h other \<and>
           length (blocks h') \<ge> length (blocks h) \<and>
           (\<forall>c < length (blocks h). blocks h' ! c = blocks h ! c \<and>
                (c \<in> set (in_use h) \<longrightarrow> c \<in> set (in_use h'))) \<and>
           (\<forall>c < length (blocks h). m_buffer (m_data v') \<noteq> Ptr c 0) \<and>
           (0 < m_size other \<longrightarrow> m_buffer (m_data v') = Ptr (length (blocks h)) 0)"
proof (cases "m_size other = 0")
  case True
  let ?v' = "\<lparr>m_data = \<lparr>m_buffer = nullptr, m_capacity = 0\<rparr>, m_size = 0\<rparr>"
  have "Vector_copy_ctor T other h = Inr (?v', h)"
    using True by (simp add: Vector_copy_ctor_def RawMemory_ctor_def Allocate_def Size_def)
  moreover have "valid h ?v'" by (simp add: valid_def)
  ultimately show ?thesis using True by (simp add: to_list_empty)
next
  case False
  let ?n = "m_size other"
  let ?L = "length (blocks h)"
  from False valid_size_le [OF assms(1)] have "0 < m_capacity (m_data other)" by simp
  from valid_PtrE [OF assms(1) this] obtain c where
    o: "m_buffer (m_data other) = Ptr c 0" "c < ?L"
      "length (blocks h ! c) = m_capacity (m_data other)" "?n \<le> m_capacity (m_data other)"
      "live (take ?n (blocks h ! c))"
    by blast
  let ?C = "blocks h ! c"
  define h1 where "h1 = h\<lparr>blocks := blocks h @ [replicate ?n None], free_slots := free_slots h - ?n,
      in_use := length (blocks h) # in_use h\<rparr>"
  let ?nd = "\<lparr>m_buffer = Ptr ?L 0, m_capacity = ?n\<rparr>"
  have ctor: "RawMemory_ctor T ?n h = Inr (?nd, h1)"
    unfolding h1_def using False assms(2,3) by (intro RawMemory_ctor_ok) simp_all
  have h1: "length (blocks h1) = Suc ?L" "blocks h1 ! ?L = replicate ?n None"
    "\<And>b. b < ?L \<Longrightarrow> blocks h1 ! b = blocks h ! b"
    by (simp_all add: h1_def nth_append)
  have u1: "in_use h1 = ?L # in_use h" by (simp add: h1_def)
  define h2 where "h2 = set_block ?L (take ?n ?C) h1"
  have "uninitialized_copy_n (Ptr c 0) ?n (Ptr ?L 0) h1 =
      Inr (set_block ?L (take 0 (blocks h1 ! ?L) @ take ?n (drop 0 (blocks h1 ! c)) @ drop (0 + ?n) (blocks h1 ! ?L)) h1)"
    using o h1 by (intro uninitialized_copy_n_block) simp_all
  then have cp: "uninitialized_copy_n (Ptr c 0) ?n (Ptr ?L 0) h1 = Inr h2"
    using o h1 by (simp add: h2_def)
  let ?v' = "\<lparr>m_data = ?nd, m_size = ?n\<rparr>"
  have res: "Vector_copy_ctor T other h = Inr (?v', h2)"
    using o(1) by (simp add: Vector_copy_ctor_def ctor Let_def Vector_begin_def GetAddress_def Size_def cp)
  have h2: "length (blocks h2) = Suc ?L" "blocks h2 ! ?L = take ?n ?C"
    "\<And>b. b < ?L \<Longrightarrow> blocks h2 ! b = blocks h ! b"
    using h1 by (simp_all add: h2_def)
  have u2: "in_use h2 = ?L # in_use h" by (simp add: h2_def u1)
  have len: "length (blocks h2 ! ?L) = ?n" using o by (simp add: h2)
  have val: "valid h2 ?v'"
    using False o by (simp add: valid_def h2(1) len u2) (simp add: h2)
  have "to_list h2 ?v' = map (\<lambda>s. Inr (the s)) (take (m_size ?v') (blocks h2 ! ?L))"
    using o by (intro to_list_block) (simp_all add: h2(1) len, simp add: h2)
  also have "\<dots> = map (\<lambda>s. Inr (the s)) (take ?n ?C)"
    by (simp add: h2)
  also have "\<dots> = to_list h other"
    using o to_list_block [of other c h] by simp
  finally have tl: "to_list h2 ?v' = to_list h other" .
  show ?thesis
    using res val tl h2 u2 by simp
qed


lemma valid_frame:
  assumes "valid h v" "length (blocks h) \<le> length (blocks h')"
    "\<And>b. m_buffer (m_data v) = Ptr b 0 \<Longrightarrow>
       blocks h' ! b = blocks h ! b \<and> (b \<in> set (in_use h) \<longrightarrow> b \<in> set (in_use h'))"
  shows "valid h' v" "to_list h' v = to_list h v"
proof -
  show "valid h' v"
    using assms by (cases "m_buffer (m_data v)") (auto simp: valid_def)
  show "to_list h' v = to_list h v"
  proof (cases "m_buffer (m_data v)")
    case nullptr
    with assms(1) show ?thesis by (simp add: valid_nullptr to_list_empty)
  next
    case (Ptr b i)
    with assms(1) have "i = 0 \<and> b < length (blocks h) \<and> 0 < m_capacity (m_data v) \<and>
      length (blocks h ! b) = m_capacity (m_data v) \<and> m_size v \<le> m_capacity (m_data v) \<and>
      live (take (m_size v) (blocks h ! b))"
      by (simp only: valid_Ptr)
    then have v: "m_buffer (m_data v) = Ptr b 0" "b < length (blocks h)"
      "length (blocks h ! b) = m_capacity (m_data v)" "m_size v \<le> m_capacity (m_data v)"
      "live (take (m_size v) (blocks h ! b))"
      using Ptr by simp_all
    have e: "blocks h' ! b = blocks h ! b" using assms(3) v(1) by simp
    have "to_list h' v = map (\<lambda>s. Inr (the s)) (take (m_size v) (blocks h' ! b))"
      using v assms(2) by (intro to_list_block) (simp_all add: e)
    also have "\<dots> = to_list h v"
      using v to_list_block [of v b h] by (simp add: e)
    finally show ?thesis .
  qed
qed

lemma copy_assign_fresh:
  assumes ne: "this \<noteq> rhs" and vt: "valid h (vs this)" and vr: "valid h (vs rhs)"
    and dis: "m_buffer (m_data (vs this)) \<noteq> m_buffer (m_data (vs rhs)) \<or> m_buffer (m_data (vs rhs)) = nullptr"
    and big: "Capacity (vs this) < Size (vs rhs)" and mem: "Size (vs rhs) \<le> free_slots h"
    and fits: "fits T (Size (vs rhs))"
  shows "\<exists>vs' h'. Vector_copy_assign T this rhs vs h = Inr (vs', h') \<and>
           Size (vs' this) = Size (vs rhs) \<and> Capacity (vs' this) = Size (vs rhs) \<and>
           to_list h' (vs' this) = to_list h (vs rhs) \<and> valid h' (vs' this) \<and>
           vs' rhs = vs rhs \<and> to_list h' (vs' rhs) = to_list h (vs rhs) \<and> valid h' (vs' rhs) \<and>
           m_buffer (m_data (vs' this)) = Ptr (length (blocks h)) 0 \<and>
           (\<forall>b. m_buffer (m_data (vs this)) = Ptr b 0 \<longrightarrow> blocks h' ! b = [] \<and> b \<notin> set (in_use h'))"
proof -
  let ?L = "length (blocks h)"
  have pos: "0 < m_size (vs rhs)" using big by (simp add: Size_def)
  from Vector_copy_ctor_valid [OF vr, of T] mem fits obtain nv h1 where
    c: "Vector_copy_ctor T (vs rhs) h = Inr (nv, h1)" "valid h1 nv"
      "m_size nv = m_size (vs rhs)" "m_capacity (m_data nv) = m_size (vs rhs)"
      "to_list h1 nv = to_list h (vs rhs)" "?L \<le> length (blocks h1)"
      "\<And>c. c < ?L \<Longrightarrow>
         blocks h1 ! c = blocks h ! c \<and> (c \<in> set (in_use h) \<longrightarrow> c \<in> set (in_use h1))"
      "m_buffer (m_data nv) = Ptr ?L 0"
    using pos by (auto simp: Size_def)
  have inb: "b < ?L" if "m_buffer (m_data v) = Ptr b 0" "valid h v" for b v
    using that by (simp add: valid_def)
  have vt1: "valid h1 (vs this)"
    using vt c(6) by (rule valid_frame(1)) (simp add: c(7) inb [OF _ vt])
  have vr1: "valid h1 (vs rhs)"
    using vr c(6) by (rule valid_frame(1)) (simp add: c(7) inb [OF _ vr])
  have tr1: "to_list h1 (vs rhs) = to_list h (vs rhs)"
    using vr c(6) by (rule valid_frame(2)) (simp add: c(7) inb [OF _ vr])
  from Vector_dtor_valid [OF vt1] obtain h2 where
    d: "Vector_dtor (vs this) h1 = Inr h2" "length (blocks h2) = length (blocks h1)"
      "\<And>c. m_buffer (m_data (vs this)) \<noteq> Ptr c 0 \<Longrightarrow>
         blocks h2 ! c = blocks h1 ! c \<and> (c \<in> set (in_use h2) \<longleftrightarrow> c \<in> set (in_use h1))"
      "\<And>c. m_buffer (m_data (vs this)) = Ptr c 0 \<Longrightarrow> blocks h2 ! c = [] \<and> c \<notin> set (in_use h2)"
    by blast
  have res: "Vector_copy_assign T this rhs vs h = Inr (vs(this := nv), h2)"
    using ne big by (simp add: Vector_copy_assign_def Size_def Capacity_def c(1) d(1))
  have nvb: "m_buffer (m_data (vs this)) \<noteq> Ptr ?L 0"
    using inb [OF _ vt, of ?L] by auto
  have rb: "m_buffer (m_data (vs this)) \<noteq> Ptr b 0" if "m_buffer (m_data (vs rhs)) = Ptr b 0" for b
    using that dis by auto
  have le2: "length (blocks h1) \<le> length (blocks h2)" by (simp add: d(2))
  have v2: "valid h2 nv"
    using c(2) le2 by (rule valid_frame(1)) (simp add: c(8) d(3) nvb)
  have t2: "to_list h2 nv = to_list h1 nv"
    using c(2) le2 by (rule valid_frame(2)) (simp add: c(8) d(3) nvb)
  have r2: "valid h2 (vs rhs)"
    using vr1 le2 by (rule valid_frame(1)) (simp add: d(3) rb)
  have tr2: "to_list h2 (vs rhs) = to_list h1 (vs rhs)"
    using vr1 le2 by (rule valid_frame(2)) (simp add: d(3) rb)
  show ?thesis
    using ne by (simp add: res Size_def Capacity_def RawMemory_Capacity_def c(3,4,5,8) v2 t2 r2 tr2 tr1 d(4))
qed


lemma copy_assign_reuse:
  assumes ne: "this \<noteq> rhs" and vt: "valid h (vs this)" and vr: "valid h (vs rhs)"
    and dis: "m_buffer (m_data (vs this)) \<noteq> m_buffer (m_data (vs rhs)) \<or> m_buffer (m_data (vs rhs)) = nullptr"
    and small: "Size (vs rhs) \<le> Capacity (vs this)"
  shows "\<exists>h'. Vector_copy_assign T this rhs vs h =
             Inr (vs(this := (vs this)\<lparr>m_size := m_size (vs rhs)\<rparr>), h') \<and>
           to_list h' ((vs this)\<lparr>m_size := m_size (vs rhs)\<rparr>) = to_list h (vs rhs) \<and>
           valid h' ((vs this)\<lparr>m_size := m_size (vs rhs)\<rparr>) \<and>
           to_list h' (vs rhs) = to_list h (vs rhs) \<and> valid h' (vs rhs) \<and>
           (\<forall>i. m_size (vs rhs) \<le> i \<and> i < m_size (vs this) \<longrightarrow>
              slot_at h' (ptr_add (m_buffer (m_data (vs this))) i) = Some None)"
proof -
  let ?t = "vs this" and ?r = "vs rhs"
  let ?m = "m_size ?t" and ?n = "m_size ?r"
  let ?t' = "?t\<lparr>m_size := ?n\<rparr>"
  have ncap: "?n \<le> m_capacity (m_data ?t)"
    using small by (simp add: Size_def Capacity_def RawMemory_Capacity_def)
  have notbig: "\<not> RawMemory_Capacity (m_data ?t) < ?n"
    using ncap by (simp add: RawMemory_Capacity_def)
  have unfold: "Vector_copy_assign T this rhs vs h =
      and_then (copy_n (m_buffer (m_data ?r)) (min ?m ?n) (m_buffer (m_data ?t)) h) (\<lambda>h.
      and_then
        (if ?n < ?m
         then destroy_n (ptr_add (m_buffer (m_data ?t)) ?n) (?m - ?n) h
         else uninitialized_copy_n (ptr_add (m_buffer (m_data ?r)) ?m) (?n - ?m)
                (ptr_add (m_buffer (m_data ?t)) ?m) h) (\<lambda>h.
      Inr (vs(this := ?t'), h)))"
    using ne notbig by (simp add: Vector_copy_assign_def GetAddress_def Size_def cong: if_cong)
  consider (empty) "?n = 0" "?m = 0" | (clear) "?n = 0" "0 < ?m" | (copy) "0 < ?n" by linarith
  then show ?thesis
  proof cases
    case empty
    then have "Vector_copy_assign T this rhs vs h = Inr (vs(this := ?t'), h)"
      by (simp add: unfold)
    moreover have "?t' = ?t" using empty by simp
    moreover then have "valid h ?t'" using vt by simp
    ultimately show ?thesis
      using empty vr by (simp add: to_list_empty)
  next
    case clear
    with valid_size_le [OF vt] have "0 < m_capacity (m_data ?t)" by simp
    from valid_PtrE [OF vt this] obtain b where
      t: "m_buffer (m_data ?t) = Ptr b 0" "b < length (blocks h)"
        "length (blocks h ! b) = m_capacity (m_data ?t)" "?m \<le> m_capacity (m_data ?t)"
        "live (take ?m (blocks h ! b))" "b \<in> set (in_use h)"
      by blast
    let ?B = "blocks h ! b"
    define h' where "h' = set_block b (take 0 ?B @ replicate ?m None @ drop (0 + ?m) ?B) h"
    have d: "destroy_n (Ptr b 0) ?m h = Inr h'"
      unfolding h'_def using t by (intro destroy_n_block) simp_all
    have res: "Vector_copy_assign T this rhs vs h = Inr (vs(this := ?t'), h')"
      using clear t(1) by (simp add: unfold d)
    have h': "length (blocks h') = length (blocks h)" "length (blocks h' ! b) = length ?B"
      "\<And>c. c \<noteq> b \<Longrightarrow> blocks h' ! c = blocks h ! c" "in_use h' = in_use h"
      using t by (simp_all add: h'_def)
    have rb: "m_buffer (m_data ?r) \<noteq> Ptr b 0" using dis t(1) by auto
    have le: "length (blocks h) \<le> length (blocks h')" by (simp add: h')
    have r1: "valid h' ?r"
      using vr le by (rule valid_frame(1)) (use rb h'(3,4) in auto)
    have r2: "to_list h' ?r = to_list h ?r"
      using vr le by (rule valid_frame(2)) (use rb h'(3,4) in auto)
    have "valid h' ?t'"
      using t clear by (simp add: valid_def h')
    moreover have "slot_at h' (Ptr b i) = Some None" if "i < ?m" for i
      using that t by (simp add: h'(1) h'(2)) (simp add: h'_def nth_append)
    ultimately show ?thesis
      using res r1 r2 clear t(1) by (simp add: to_list_empty)
  next
    case copy
    with ncap have "0 < m_capacity (m_data ?t)" by simp
    from valid_PtrE [OF vt this] obtain b where
      t: "m_buffer (m_data ?t) = Ptr b 0" "b < length (blocks h)"
        "length (blocks h ! b) = m_capacity (m_data ?t)" "?m \<le> m_capacity (m_data ?t)"
        "live (take ?m (blocks h ! b))" "b \<in> set (in_use h)"
      by blast
    from copy valid_size_le [OF vr] have "0 < m_capacity (m_data ?r)" by simp
    from valid_PtrE [OF vr this] obtain c where
      r: "m_buffer (m_data ?r) = Ptr c 0" "c < length (blocks h)"
        "length (blocks h ! c) = m_capacity (m_data ?r)" "?n \<le> m_capacity (m_data ?r)"
        "live (take ?n (blocks h ! c))"
      by blast
    have cb: "c \<noteq> b" using dis t(1) r(1) by auto
    let ?B = "blocks h ! b" and ?C = "blocks h ! c"
    let ?k = "min ?m ?n"
    define h1 where "h1 = set_block b (take 0 ?B @ take ?k (drop 0 ?C) @ drop (0 + ?k) ?B) h"
    have lk: "live (take ?k ?C)" "live (take ?k ?B)"
      using live_take [OF r(5), of ?k] live_take [OF t(5), of ?k] by (simp_all add: min_def split: if_splits)
    have cp: "copy_n (Ptr c 0) ?k (Ptr b 0) h = Inr h1"
      unfolding h1_def using t r cb lk ncap by (intro copy_n_block) simp_all
    have h1: "length (blocks h1) = length (blocks h)" "blocks h1 ! b = take ?k ?C @ drop ?k ?B"
      "blocks h1 ! c = ?C"
      using t r cb by (simp_all add: h1_def)
    have u1: "in_use h1 = in_use h" by (simp add: h1_def)
    have len1: "length (blocks h1 ! b) = length ?B"
      using t r ncap by (simp add: h1(2))
    have "\<exists>h'. (if ?n < ?m
         then destroy_n (Ptr b ?n) (?m - ?n) h1
         else uninitialized_copy_n (Ptr c ?m) (?n - ?m) (Ptr b ?m) h1) = Inr h' \<and>
         length (blocks h') = length (blocks h) \<and>
         blocks h' ! c = ?C \<and> length (blocks h' ! b) = length ?B \<and>
         take ?n (blocks h' ! b) = take ?n ?C \<and> in_use h' = in_use h \<and>
         (\<forall>i. ?n \<le> i \<and> i < ?m \<longrightarrow> blocks h' ! b ! i = None)"
    proof (cases "?n < ?m")
      case True
      then have k: "?k = ?n" by simp
      define h' where "h' = set_block b (take ?n (blocks h1 ! b) @ replicate (?m - ?n) None @
                                          drop (?n + (?m - ?n)) (blocks h1 ! b)) h1"
      have "take (?m - ?n) (drop ?n (blocks h1 ! b)) = drop ?n (take ?m ?B)"
        using r ncap by (simp add: h1(2) k drop_take)
      then have "live (take (?m - ?n) (drop ?n (blocks h1 ! b)))"
        using t(5) by (simp add: live_drop)
      then have "destroy_n (Ptr b ?n) (?m - ?n) h1 = Inr h'"
        unfolding h'_def using t True by (intro destroy_n_block) (simp_all add: h1(1) len1)
      moreover have "blocks h' ! c = ?C" "length (blocks h') = length (blocks h)"
        using cb t by (simp_all add: h'_def h1)
      moreover have "length (blocks h' ! b) = length ?B"
        using t True r ncap by (simp add: h'_def h1(1) h1(2) k)
      moreover have "take ?n (blocks h' ! b) = take ?n ?C"
        using t r ncap by (simp add: h'_def h1(1) h1(2) k)
      moreover have "in_use h' = in_use h" by (simp add: h'_def u1)
      moreover have "blocks h' ! b ! i = None" if "?n \<le> i" "i < ?m" for i
      proof -
        have "blocks h' ! b = take ?n (blocks h1 ! b) @ replicate (?m - ?n) None @ drop ?m (blocks h1 ! b)"
          using t True by (simp add: h'_def h1(1))
        moreover have "length (take ?n (blocks h1 ! b)) = ?n"
          using t ncap by (simp add: len1)
        moreover have "i - ?n < ?m - ?n" using that by arith
        ultimately show ?thesis
          using that by (simp add: nth_append)
      qed
      ultimately show ?thesis using True by simp
    next
      case False
      then have k: "?k = ?m" by simp
      define h' where "h' = set_block b (take ?m (blocks h1 ! b) @ take (?n - ?m) (drop ?m (blocks h1 ! c)) @
                                          drop (?m + (?n - ?m)) (blocks h1 ! b)) h1"
      have "take (?n - ?m) (drop ?m ?C) = drop ?m (take ?n ?C)"
        using False by (simp add: drop_take)
      then have "live (take (?n - ?m) (drop ?m (blocks h1 ! c)))"
        using r(5) by (simp add: live_drop h1(3))
      then have "uninitialized_copy_n (Ptr c ?m) (?n - ?m) (Ptr b ?m) h1 = Inr h'"
        unfolding h'_def using t r cb False ncap
        by (intro uninitialized_copy_n_block) (simp_all add: h1(1) h1(3) len1)
      moreover have "blocks h' ! c = ?C" "length (blocks h') = length (blocks h)"
        using cb t by (simp_all add: h'_def h1)
      moreover have "length (blocks h' ! b) = length ?B"
        using t False r ncap by (simp add: h'_def h1 k)
      moreover have "take ?n (blocks h' ! b) = take ?n ?C"
      proof -
        have "take ?m ?C @ take (?n - ?m) (drop ?m ?C) = take ?n ?C"
          using False by (metis le_add_diff_inverse not_less take_add)
        then show ?thesis
          using t r ncap False by (simp add: h'_def h1 k)
      qed
      moreover have "in_use h' = in_use h" by (simp add: h'_def u1)
      moreover have "\<forall>i. ?n \<le> i \<and> i < ?m \<longrightarrow> blocks h' ! b ! i = None"
        using False by auto
      ultimately show ?thesis using False by simp
    qed
    then obtain h' where
      s: "(if ?n < ?m then destroy_n (Ptr b ?n) (?m - ?n) h1
           else uninitialized_copy_n (Ptr c ?m) (?n - ?m) (Ptr b ?m) h1) = Inr h'"
      and h': "length (blocks h') = length (blocks h)" "blocks h' ! c = ?C"
        "length (blocks h' ! b) = length ?B" "take ?n (blocks h' ! b) = take ?n ?C"
        "in_use h' = in_use h"
      and raw: "\<And>i. ?n \<le> i \<Longrightarrow> i < ?m \<Longrightarrow> blocks h' ! b ! i = None"
      by blast
    have res: "Vector_copy_assign T this rhs vs h = Inr (vs(this := ?t'), h')"
      using s by (auto simp add: unfold t(1) r(1) cp split: if_splits)
    have le: "length (blocks h) \<le> length (blocks h')" by (simp add: h')
    have r1: "valid h' ?r"
      using vr le by (rule valid_frame(1)) (use r(1) h'(2,5) in auto)
    have r2: "to_list h' ?r = to_list h ?r"
      using vr le by (rule valid_frame(2)) (use r(1) h'(2,5) in auto)
    have t1: "valid h' ?t'"
      using t r ncap copy by (simp add: valid_def h')
    have t3: "slot_at h' (Ptr b i) = Some None" if "?n \<le> i" "i < ?m" for i
      using that t raw [of i] by (simp add: h')
    have "to_list h' ?t' = map (\<lambda>s. Inr (the s)) (take (m_size ?t') (blocks h' ! b))"
      using t r ncap by (intro to_list_block) (simp_all add: h')
    also have "\<dots> = map (\<lambda>s. Inr (the s)) (take ?n ?C)"
      by (simp add: h')
    also have "\<dots> = to_list h ?r"
      using r to_list_block [of ?r c h] by simp
    finally have t2: "to_list h' ?t' = to_list h ?r" .
    show ?thesis
      using res r1 r2 t1 t2 t3 t(1) by simp
  qed
qed

lemma RawMemory_ctor_capacity:
  "RawMemory_ctor T n h = Inr (nd, h') \<Longrightarrow> m_capacity nd = n"
  by (auto simp: RawMemory_ctor_def and_then_eq_Inr split: prod.splits)

lemma replace_buffer_data:
  "replace_buffer v nd h = Inr (v', h') \<Longrightarrow> v' = v\<lparr>m_data := nd\<rparr>"
  by (auto simp: replace_buffer_def and_then_eq_Inr)

lemma Reserve_capacity_mono:
  "Reserve T n v h = Inr (v', h') \<Longrightarrow> Capacity v \<le> Capacity v'"
  by (auto simp: Reserve_alt and_then_eq_Inr Capacity_def RawMemory_Capacity_def
      dest!: RawMemory_ctor_capacity replace_buffer_data split: if_splits prod.splits)

lemma Resize_capacity_mono:
  "Resize T n v h = Inr (v', h') \<Longrightarrow> Capacity v \<le> Capacity v'"
  by (auto simp: Resize_def and_then_eq_Inr Capacity_def RawMemory_Capacity_def
      dest!: Reserve_capacity_mono [unfolded Capacity_def RawMemory_Capacity_def] split: if_splits prod.splits)

lemma grow_with_capacity_mono:
  "grow_with construct T a v h = Inr (v', h') \<Longrightarrow> Capacity v \<le> Capacity v'"
  by (auto simp: grow_with_def and_then_eq_Inr Capacity_def RawMemory_Capacity_def Size_def
      dest!: RawMemory_ctor_capacity replace_buffer_data split: if_splits prod.splits)

lemma EmplaceBack_capacity_mono:
  "EmplaceBack T a v h = Inr (r, v', h') \<Longrightarrow> Capacity v \<le> Capacity v'"
  by (auto simp: EmplaceBack_grow_with and_then_eq_Inr dest!: grow_with_capacity_mono split: prod.splits)

lemma Emplace_capacity_mono:
  assumes "Emplace T pos a v h = Inr (it, v', h')"
  shows "Capacity v \<le> Capacity v'"
proof (cases "Size v = Capacity v")
  case True
  with assms show ?thesis
    by (auto simp: Emplace_alt and_then_eq_Inr Capacity_def RawMemory_Capacity_def Size_def
        dest!: RawMemory_ctor_capacity replace_buffer_data split: prod.splits)
next
  case False
  with assms show ?thesis
    by (auto simp: Emplace_alt and_then_eq_Inr Capacity_def RawMemory_Capacity_def
        split: if_splits prod.splits)
qed

lemma PopBack_data: "PopBack v h = Inr (v', h') \<Longrightarrow> m_data v' = m_data v"
  by (auto simp: PopBack_def and_then_eq_Inr Let_def)

lemma Erase_data: "Erase T pos v h = Inr (it, v', h') \<Longrightarrow> m_data v' = m_data v"
  by (auto simp: Erase_def and_then_eq_Inr dest!: PopBack_data split: prod.splits)

lemma Vector_copy_ctor_capacity:
  "Vector_copy_ctor T other h = Inr (v', h') \<Longrightarrow> m_capacity (m_data v') = m_size other"
  by (auto simp: Vector_copy_ctor_def and_then_eq_Inr Let_def dest!: RawMemory_ctor_capacity split: prod.splits)

lemma copy_assign_capacity_mono:
  "Vector_copy_assign T this rhs vs h = Inr (vs', h') \<Longrightarrow> Capacity (vs k) \<le> Capacity (vs' k)"
  by (auto simp: Vector_copy_assign_def and_then_eq_Inr Capacity_def RawMemory_Capacity_def
      dest!: Vector_copy_ctor_capacity split: if_splits prod.splits)

lemma apply_op_capacity_mono:
  assumes "apply_op T this op (vs, h) = Inr (vs', h')" "\<not> exchanges op"
  shows "Capacity (vs k) \<le> Capacity (vs' k)"
proof (cases op)
  case (OpReserve n)
  with assms show ?thesis
    by (auto simp: and_then_eq_Inr dest: Reserve_capacity_mono)
next
  case (OpResize n)
  with assms show ?thesis
    by (auto simp: and_then_eq_Inr dest: Resize_capacity_mono)
next
  case (OpPushBack a)
  with assms show ?thesis
    by (auto simp: and_then_eq_Inr PushBack_grow_with dest: grow_with_capacity_mono)
next
  case (OpPushBack_move a)
  with assms show ?thesis
    by (auto simp: and_then_eq_Inr PushBack_move_grow_with dest: grow_with_capacity_mono)
next
  case (OpEmplaceBack a)
  with assms show ?thesis
    by (auto simp: and_then_eq_Inr dest: EmplaceBack_capacity_mono)
next
  case (OpEmplace pos a)
  with assms show ?thesis
    by (auto simp: and_then_eq_Inr dest: Emplace_capacity_mono)
next
  case (OpInsert pos a)
  with assms show ?thesis
    by (auto simp: and_then_eq_Inr Insert_def dest: Emplace_capacity_mono)
next
  case OpPopBack
  with assms show ?thesis
    by (auto simp: and_then_eq_Inr Capacity_def dest: PopBack_data)
next
  case (OpErase pos)
  with assms show ?thesis
    by (auto simp: and_then_eq_Inr Capacity_def dest: Erase_data)
next
  case (OpCopyAssign rhs)
  with assms show ?thesis
    by (auto dest: copy_assign_capacity_mono)
next
  case (OpMoveAssign rhs)
  with assms show ?thesis by simp
next
  case (OpSwap other)
  with assms show ?thesis by simp
qed

lemma run_capacity_mono:
  "run T ops s = Inr s' \<Longrightarrow> list_all (\<lambda>(this, op). \<not> exchanges op) ops \<Longrightarrow>
   Capacity (fst s k) \<le> Capacity (fst s' k)"
proof (induction ops arbitrary: s)
  case Nil
  then show ?case by simp
next
  case (Cons x ops)
  obtain this op where x: "x = (this, op)" by (cases x)
  from Cons.prems x obtain s1 where
    s1: "apply_op T this op s = Inr s1" "run T ops s1 = Inr s'"
    by (auto simp: and_then_eq_Inr)
  from Cons.prems x have ne: "\<not> exchanges op" "list_all (\<lambda>(this, op). \<not> exchanges op) ops"
    by simp_all
  have "Capacity (fst s k) \<le> Capacity (fst s1 k)"
    using apply_op_capacity_mono [of T this op "fst s" "snd s" "fst s1" "snd s1" k] s1(1) ne(1)
    by simp
  also have "\<dots> \<le> Capacity (fst s' k)"
    using Cons.IH [OF s1(2) ne(2)] .
  finally show ?case .
qed

section \<open>Insertion in the middle\<close>

lemma take_drop_update_beyond:
  assumes "i + k \<le> j"
  shows "take k (drop i (xs[j := y])) = take k (drop i xs)"
proof -
  have "drop i (take (i + k) (xs[j := y])) = drop i (take (i + k) xs)"
    using assms by simp
  then have "take (i + k - i) (drop i (xs[j := y])) = take (i + k - i) (drop i xs)"
    by (simp only: drop_take)
  then show ?thesis by simp
qed

lemma move_backward_n_shift_right:
  "b < length (blocks h) \<Longrightarrow> Suc (i + n) < length (blocks h ! b) \<Longrightarrow>
   live (take (Suc (Suc n)) (drop i (blocks h ! b))) \<Longrightarrow>
   move_backward_n T (Ptr b (Suc (i + n))) (Suc n) (Ptr b (Suc (Suc (i + n)))) h =
     Inr (set_block b (take i (blocks h ! b) @ [map_option (moved_from T) (blocks h ! b ! i)] @
            take (Suc n) (drop i (blocks h ! b)) @ drop (Suc (Suc (i + n))) (blocks h ! b)) h)"
proof (induction n arbitrary: h)
  case 0
  let ?B = "blocks h ! b"
  from 0 have lv: "?B ! i \<noteq> None" "?B ! Suc i \<noteq> None"
    by (simp_all add: live_take_drop_Suc)
  then obtain x where x: "?B ! i = Some x" by auto
  have ma: "move_assign T (Ptr b (Suc i)) (Ptr b i) h =
      Inr (set_block b (?B[Suc i := Some x, i := Some (moved_from T x)]) h)"
    using 0 lv x by (intro move_assign_block) simp_all
  have d1: "drop (Suc i) (?B[Suc i := Some x]) = Some x # drop (Suc (Suc i)) ?B"
    using 0 by (simp add: upd_conv_take_nth_drop)
  have "?B[Suc i := Some x, i := Some (moved_from T x)] =
      take i (?B[Suc i := Some x]) @ Some (moved_from T x) # drop (Suc i) (?B[Suc i := Some x])"
    using 0 by (intro upd_conv_take_nth_drop) simp
  then have "?B[Suc i := Some x, i := Some (moved_from T x)] =
      take i ?B @ [Some (moved_from T x)] @ [Some x] @ drop (Suc (Suc i)) ?B"
    by (simp add: d1)
  moreover have "take (Suc 0) (drop i ?B) = [Some x]"
    using 0 x by (simp add: take_Suc_conv_app_nth)
  ultimately show ?case
    using 0 x by (simp add: ma del: list_update.simps take_Suc_Cons drop_Suc_Cons)
next
  case (Suc n)
  let ?B = "blocks h ! b"
  let ?j = "Suc (i + n)"
  from Suc.prems have len: "Suc (Suc (i + n)) < length ?B" by simp
  have "take (Suc (Suc (Suc n))) (drop i ?B) = take (Suc (Suc n)) (drop i ?B) @ [?B ! (Suc ?j)]"
    using len by (simp add: take_Suc_conv_app_nth [of "Suc (Suc n)"])
  moreover have "take (Suc (Suc n)) (drop i ?B) = take (Suc n) (drop i ?B) @ [?B ! ?j]"
    using len by (simp add: take_Suc_conv_app_nth [of "Suc n"])
  ultimately have lv: "live (take (Suc n) (drop i ?B))" "?B ! ?j \<noteq> None" "?B ! Suc ?j \<noteq> None"
    using Suc.prems(3) by simp_all
  then obtain x where x: "?B ! ?j = Some x" by auto
  let ?B1 = "?B[Suc ?j := Some x, ?j := Some (moved_from T x)]"
  let ?h1 = "set_block b ?B1 h"
  have ma: "move_assign T (Ptr b (Suc ?j)) (Ptr b ?j) h = Inr ?h1"
    using Suc.prems len lv x by (intro move_assign_block) simp_all
  have h1: "b < length (blocks ?h1)" "blocks ?h1 ! b = ?B1"
    using Suc.prems by simp_all
  have tk: "take (Suc n) (drop i ?B1) = take (Suc n) (drop i ?B)"
    by (simp add: take_drop_update_beyond)
  have l1: "live (take (Suc (Suc n)) (drop i ?B1))"
  proof -
    have "take (Suc (Suc n)) (drop i ?B1) = take (Suc n) (drop i ?B1) @ [?B1 ! ?j]"
      using len by (simp add: take_Suc_conv_app_nth [of "Suc n"])
    then show ?thesis using lv(1) len by (simp add: tk)
  qed
  have ih: "move_backward_n T (Ptr b ?j) (Suc n) (Ptr b (Suc ?j)) ?h1 =
     Inr (set_block b (take i ?B1 @ [map_option (moved_from T) (?B1 ! i)] @
            take (Suc n) (drop i ?B1) @ drop (Suc ?j) ?B1) ?h1)"
    using Suc.IH [of ?h1] h1 l1 len by simp
  have eq: "take i ?B1 @ [map_option (moved_from T) (?B1 ! i)] @ take (Suc n) (drop i ?B1) @ drop (Suc ?j) ?B1 =
        take i ?B @ [map_option (moved_from T) (?B ! i)] @ take (Suc (Suc n)) (drop i ?B) @
        drop (Suc (Suc ?j)) ?B"
  proof -
    have a: "take i ?B1 = take i ?B" by simp
    have b: "?B1 ! i = ?B ! i" by simp
    have c: "drop (Suc ?j) ?B1 = Some x # drop (Suc (Suc ?j)) ?B"
      using len by (simp add: drop_update_cancel Cons_nth_drop_Suc [symmetric])
    have d: "take (Suc (Suc n)) (drop i ?B) = take (Suc n) (drop i ?B) @ [Some x]"
      using len x by (simp add: take_Suc_conv_app_nth [of "Suc n"])
    show ?thesis by (simp only: a b c d tk) simp
  qed
  have ih': "move_backward_n T (Ptr b ?j) (Suc n) (Ptr b (Suc ?j)) ?h1 =
     Inr (set_block b (take i ?B @ [map_option (moved_from T) (?B ! i)] @
            take (Suc (Suc n)) (drop i ?B) @ drop (Suc (Suc ?j)) ?B) h)"
    unfolding ih eq by (simp only: set_block_twice)
  show ?case
    by (subst move_backward_n.simps(2))
       (simp add: ma ih' del: move_backward_n.simps list_update.simps take_Suc_Cons drop_Suc_Cons)
qed


lemma move_construct_block:
  assumes "b < length (blocks h)" "i < length (blocks h ! b)" "j < length (blocks h ! b)"
    "blocks h ! b ! j = Some x"
  shows "move_construct T (Ptr b i) (Ptr b j) h =
     Inr (set_block b ((blocks h ! b)[i := Some x, j := Some (moved_from T x)]) h)"
  using assms by (simp add: move_construct_def load_Ptr construct_at_Ptr)

lemma open_gap:
  assumes "b < length (blocks h)" "i \<le> j" "Suc j < length (blocks h ! b)"
    "live (take (Suc j) (blocks h ! b))"
  shows "\<exists>r. and_then (move_construct T (Ptr b (Suc j)) (Ptr b j) h)
                (move_backward T (Ptr b i) (Ptr b j) (Ptr b (Suc j))) =
     Inr (set_block b (take i (blocks h ! b) @ [Some r] @ drop i (take (Suc j) (blocks h ! b)) @
                       drop (Suc (Suc j)) (blocks h ! b)) h)"
proof -
  let ?B = "blocks h ! b"
  have "?B ! j \<noteq> None"
    using live_nth [OF assms(4), of j] assms by simp
  then obtain xl where xl: "?B ! j = Some xl" by auto
  let ?B1 = "?B[Suc j := Some xl, j := Some (moved_from T xl)]"
  let ?h1 = "set_block b ?B1 h"
  have mc: "move_construct T (Ptr b (Suc j)) (Ptr b j) h = Inr ?h1"
    using assms xl by (intro move_construct_block) simp_all
  have B1: "?B1 = take j ?B @ Some (moved_from T xl) # Some xl # drop (Suc (Suc j)) ?B"
  proof -
    have "?B1 = take j (?B[Suc j := Some xl]) @ Some (moved_from T xl) # drop (Suc j) (?B[Suc j := Some xl])"
      using assms by (intro upd_conv_take_nth_drop) simp
    moreover have "drop (Suc j) (?B[Suc j := Some xl]) = Some xl # drop (Suc (Suc j)) ?B"
      using assms by (simp add: upd_conv_take_nth_drop)
    ultimately show ?thesis by simp
  qed
  have tj: "take (Suc j) ?B = take j ?B @ [Some xl]"
    using assms xl by (simp add: take_Suc_conv_app_nth)
  show ?thesis
  proof (cases "i = j")
    case True
    have "move_backward T (Ptr b i) (Ptr b j) (Ptr b (Suc j)) ?h1 = Inr ?h1"
      using True by (simp add: move_backward_def)
    moreover have "?B1 = take i ?B @ [Some (moved_from T xl)] @ drop i (take (Suc j) ?B) @ drop (Suc (Suc j)) ?B"
      using True assms by (simp add: B1 tj)
    ultimately have "and_then (move_construct T (Ptr b (Suc j)) (Ptr b j) h)
                (move_backward T (Ptr b i) (Ptr b j) (Ptr b (Suc j))) =
       Inr (set_block b (take i ?B @ [Some (moved_from T xl)] @ drop i (take (Suc j) ?B) @
                       drop (Suc (Suc j)) ?B) h)"
      by (simp only: mc and_then_simps)
    then show ?thesis by (rule exI)
  next
    case False
    define n where "n = j - Suc i"
    have n: "j = Suc (i + n)"
      using assms(2) False by (simp add: n_def)
    have h1: "b < length (blocks ?h1)" "blocks ?h1 ! b = ?B1"
      using assms by simp_all
    have "?B ! i \<noteq> None"
      using live_nth [OF assms(4), of i] assms by simp
    then obtain xi where xi: "?B ! i = Some xi" by auto
    have tk: "take (Suc n) (drop i ?B1) = take (Suc n) (drop i ?B)"
      using n by (simp add: take_drop_update_beyond)
    have tk2: "take (Suc n) (drop i ?B) = drop i (take j ?B)"
      using n by (simp add: drop_take)
    have lj: "live (take j ?B)"
      using assms(4) by (simp add: tj)
    have l1: "live (take (Suc (Suc n)) (drop i ?B1))"
    proof -
      have "take (Suc (Suc n)) (drop i ?B1) = take (Suc n) (drop i ?B1) @ [?B1 ! j]"
        using assms n by (simp add: take_Suc_conv_app_nth [of "Suc n"])
      then show ?thesis
        using lj assms by (simp add: tk tk2 live_drop)
    qed
    have sh0: "move_backward_n T (Ptr b (Suc (i + n))) (Suc n) (Ptr b (Suc (Suc (i + n)))) ?h1 =
       Inr (set_block b (take i (blocks ?h1 ! b) @ [map_option (moved_from T) (blocks ?h1 ! b ! i)] @
            take (Suc n) (drop i (blocks ?h1 ! b)) @ drop (Suc (Suc (i + n))) (blocks ?h1 ! b)) ?h1)"
      using h1 assms n l1 by (intro move_backward_n_shift_right) simp_all
    have sh: "move_backward_n T (Ptr b (Suc (i + n))) (Suc n) (Ptr b (Suc (Suc (i + n)))) ?h1 =
       Inr (set_block b (take i ?B1 @ [map_option (moved_from T) (?B1 ! i)] @
            take (Suc n) (drop i ?B1) @ drop (Suc (Suc (i + n))) ?B1) h)"
      using sh0 unfolding h1(2) by (simp only: set_block_twice)
    have pd: "ptr_diff (Ptr b (Suc (i + n))) (Ptr b i) = Inr (Suc n)"
      by simp
    have mb: "move_backward T (Ptr b i) (Ptr b j) (Ptr b (Suc j)) ?h1 =
       Inr (set_block b (take i ?B1 @ [map_option (moved_from T) (?B1 ! i)] @
            take (Suc n) (drop i ?B1) @ drop (Suc j) ?B1) h)"
      using sh unfolding n move_backward_def pd and_then_simps .
    have a: "take i ?B1 = take i ?B" "?B1 ! i = Some xi"
      using n xi by simp_all
    have c: "drop (Suc j) ?B1 = Some xl # drop (Suc (Suc j)) ?B"
      using assms by (simp add: B1)
    have d: "drop i (take (Suc j) ?B) = drop i (take j ?B) @ [Some xl]"
      using assms(2,3) by (simp add: tj)
    have "take i ?B1 @ [map_option (moved_from T) (?B1 ! i)] @ take (Suc n) (drop i ?B1) @ drop (Suc j) ?B1 =
       take i ?B @ [Some (moved_from T xi)] @ drop i (take (Suc j) ?B) @ drop (Suc (Suc j)) ?B"
      by (simp only: a c d tk tk2) simp
    with mb have "and_then (move_construct T (Ptr b (Suc j)) (Ptr b j) h)
                (move_backward T (Ptr b i) (Ptr b j) (Ptr b (Suc j))) =
       Inr (set_block b (take i ?B @ [Some (moved_from T xi)] @ drop i (take (Suc j) ?B) @
                       drop (Suc (Suc j)) ?B) h)"
      by (simp only: mc and_then_simps)
    then show ?thesis by (rule exI)
  qed
qed


lemma read_arg_outside:
  assumes "read_arg a h = Inr x" "\<not> refers_into a v" "m_buffer (m_data v) = Ptr b 0"
  shows "read_arg a (set_block b B' h) = Inr x"
proof (cases a)
  case (Value y)
  with assms show ?thesis by (simp add: read_arg_def)
next
  case (Ref q)
  show ?thesis
  proof (cases q)
    case nullptr
    with Ref assms show ?thesis by (simp add: read_arg_def load_def)
  next
    case (Ptr c j)
    with Ref assms have "c \<noteq> b" by (auto simp: refers_into_def)
    with Ref Ptr assms(1) show ?thesis
      by (auto simp: read_arg_def load_def split: if_splits)
  qed
qed

lemma Emplace_in_place_middle:
  assumes "valid h v" "i < Size v" "Size v \<noteq> Capacity v"
    "read_arg a h = Inr x" "\<not> refers_into a v"
  shows "\<exists>h'. Emplace T (ptr_add (Vector_begin v) i) a v h =
             Inr (ptr_add (Vector_begin v) i, v\<lparr>m_size := Size v + 1\<rparr>, h') \<and>
           to_list h' (v\<lparr>m_size := Size v + 1\<rparr>) =
             take i (to_list h v) @ [Inr x] @ drop i (to_list h v) \<and>
           valid h' (v\<lparr>m_size := Size v + 1\<rparr>)"
proof -
  let ?m = "m_size v"
  have im: "i < ?m" using assms by (simp add: Size_def)
  with valid_size_le [OF assms(1)] have "0 < m_capacity (m_data v)" by simp
  from valid_PtrE [OF assms(1) this] obtain b where
    v: "m_buffer (m_data v) = Ptr b 0" "b < length (blocks h)"
      "length (blocks h ! b) = m_capacity (m_data v)" "?m \<le> m_capacity (m_data v)"
      "live (take ?m (blocks h ! b))" "b \<in> set (in_use h)"
    by blast
  have lt: "?m < m_capacity (m_data v)"
    using v assms(3) by (simp add: Size_def Capacity_def RawMemory_Capacity_def)
  let ?B = "blocks h ! b"
  define j where "j = ?m - 1"
  have mj: "?m = Suc j" using im by (simp add: j_def)
  have ij: "i \<le> j" using im mj by simp
  from open_gap [of b h i j T] v lt ij mj obtain r where
    "and_then (move_construct T (Ptr b (Suc j)) (Ptr b j) h)
        (move_backward T (Ptr b i) (Ptr b j) (Ptr b (Suc j))) =
     Inr (set_block b (take i ?B @ [Some r] @ drop i (take (Suc j) ?B) @ drop (Suc (Suc j)) ?B) h)"
    by auto
  then obtain h1 where
    mc: "move_construct T (Ptr b (Suc j)) (Ptr b j) h = Inr h1" and
    mb: "move_backward T (Ptr b i) (Ptr b j) (Ptr b (Suc j)) h1 =
     Inr (set_block b (take i ?B @ [Some r] @ drop i (take (Suc j) ?B) @ drop (Suc (Suc j)) ?B) h)"
    by (auto simp: and_then_eq_Inr)
  let ?B2 = "take i ?B @ [Some r] @ drop i (take (Suc j) ?B) @ drop (Suc (Suc j)) ?B"
  let ?h2 = "set_block b ?B2 h"
  have ra: "read_arg a ?h2 = Inr x"
    using assms(4,5) v(1) by (rule read_arg_outside)
  have li: "length (take i ?B) = i"
    using im v by simp
  have B2i: "?B2 ! i = Some r"
    using nth_append_length [of "take i ?B" "Some r" "drop i (take (Suc j) ?B) @ drop (Suc (Suc j)) ?B"]
    unfolding li by simp
  have len2: "length ?B2 = length ?B"
    using im v lt mj by simp
  define B3 where "B3 = take i ?B @ [Some x] @ drop i (take (Suc j) ?B) @ drop (Suc (Suc j)) ?B"
  have upd: "?B2[i := Some x] = B3"
    using list_update_length [of "take i ?B" "Some r" "drop i (take (Suc j) ?B) @ drop (Suc (Suc j)) ?B" "Some x"]
    unfolding li B3_def by simp
  define h3 where "h3 = set_block b B3 h"
  have "assign_at (Ptr b i) x ?h2 = Inr (set_block b ((blocks ?h2 ! b)[i := Some x]) ?h2)"
    using v im lt len2 B2i by (intro assign_at_Ptr) simp_all
  then have as: "assign_at (Ptr b i) x ?h2 = Inr h3"
    using v(2) upd by (simp add: h3_def)
  let ?v' = "v\<lparr>m_size := ?m + 1\<rparr>"
  have res: "Emplace T (ptr_add (Vector_begin v) i) a v h = Inr (Ptr b i, ?v', h3)"
    using assms(1,3) v(1) im lt mj mc mb ra as
    by (simp add: Emplace_alt Vector_end_valid Vector_begin_def GetAddress_def assert_def
        RawMemory_plus_def Back_def Vector_end_def)
  have h3: "b < length (blocks h3)" "blocks h3 ! b = B3" "in_use h3 = in_use h"
    using v by (simp_all add: h3_def)
  have len3: "length B3 = m_capacity (m_data v)"
    using im v lt mj by (simp add: B3_def)
  let ?P = "take i ?B @ [Some x] @ drop i (take ?m ?B)"
  have lp: "length ?P = Suc ?m" using im v lt by simp
  have "?P @ drop (Suc ?m) ?B = B3" using mj by (simp add: B3_def)
  then have "?P = take (length ?P) B3" by (simp only: append_eq_conv_conj)
  then have tk: "take (Suc ?m) B3 = ?P"
    unfolding lp by (rule sym)
  have lv: "live (take (Suc ?m) B3)"
    unfolding tk using live_take [OF v(5), of i] live_drop [OF v(5), of i] im by (simp add: min_def)
  have val: "valid h3 ?v'"
    using v lt lv by (simp add: valid_def h3 len3)
  have "to_list h3 ?v' = map (\<lambda>s. Inr (the s)) (take (m_size ?v') (blocks h3 ! b))"
    using v lt lv h3(1) by (intro to_list_block) (simp_all add: h3(2) len3)
  also have "\<dots> = map (\<lambda>s. Inr (the s)) ?P"
    by (simp add: h3(2) tk)
  also have "\<dots> = take i (map (\<lambda>s. Inr (the s)) (take ?m ?B)) @ [Inr x] @
                    drop i (map (\<lambda>s. Inr (the s)) (take ?m ?B))"
    using im by (simp add: take_map drop_map min_def)
  also have "map (\<lambda>s. Inr (the s)) (take ?m ?B) = to_list h v"
    using v to_list_block [of v b h] by simp
  finally have tl: "to_list h3 ?v' = take i (to_list h v) @ [Inr x] @ drop i (to_list h v)" .
  show ?thesis
    using res val tl v(1) by (simp add: Size_def Vector_begin_def GetAddress_def)
qed


lemma Emplace_in_place_end:
  assumes "valid h v" "Size v \<noteq> Capacity v" "read_arg a h = Inr x"
  shows "\<exists>v' h'. Emplace T (ptr_add (Vector_begin v) (Size v)) a v h =
             Inr (ptr_add (Vector_begin v') (Size v), v', h') \<and> Size v' = Size v + 1 \<and>
           to_list h' v' = to_list h v @ [Inr x] \<and> valid h' v'"
proof -
  let ?m = "m_size v"
  from valid_size_le [OF assms(1)] assms(2) have lt: "?m < m_capacity (m_data v)"
    by (simp add: Size_def Capacity_def RawMemory_Capacity_def)
  then have "0 < m_capacity (m_data v)" by simp
  from valid_PtrE [OF assms(1) this] obtain b where
    v: "m_buffer (m_data v) = Ptr b 0" by blast
  have con: "\<And>p. construct_copy p a h = construct_at p x h"
    using assms(3) by (rule construct_copy_read)
  from grow_with_in_place [OF assms(1,2), of "\<lambda>T. construct_copy" T a x] con
  obtain v' h' where g: "grow_with (\<lambda>T. construct_copy) T a v h = Inr (v', h')"
    "Size v' = Size v + 1" "to_list h' v' = to_list h v @ [Inr x]" "valid h' v'"
    "m_buffer (m_data v') = m_buffer (m_data v)"
    by auto
  have "Emplace T (Ptr b ?m) a v h =
      and_then (grow_with (\<lambda>T. construct_copy) T a v h) (\<lambda>(v', h'). Inr (Ptr b ?m, v', h'))"
    using assms(1,2) v lt
    by (simp add: Emplace_alt grow_with_def Vector_end_valid Vector_begin_def GetAddress_def assert_def
        RawMemory_plus_def and_then_def split: sum.splits)
  then show ?thesis
    using g v by (simp add: Size_def Vector_begin_def GetAddress_def)
qed

lemma UninitializedMoveOrCopy_range:
  "i \<le> k \<Longrightarrow> UninitializedMoveOrCopy T (Ptr b i) (Ptr b k) dst h =
     UninitializedMoveOrCopyN T (Ptr b i) (k - i) dst h"
  by (simp add: UninitializedMoveOrCopy_def UninitializedMoveOrCopyN_def uninitialized_move_def
      uninitialized_copy_def)

lemma Emplace_first_element:
  assumes "m_buffer (m_data v) = nullptr" "valid h v" "1 \<le> free_slots h" "read_arg a h = Inr x"
    "fits T 1"
  shows "\<exists>v' h'. Emplace T (ptr_add (Vector_begin v) 0) a v h =
             Inr (ptr_add (Vector_begin v') 0, v', h') \<and> Size v' = Size v + 1 \<and>
           to_list h' v' = to_list h v @ [Inr x] \<and> valid h' v'"
proof -
  from assms have z: "m_size v = 0" "m_capacity (m_data v) = 0" by (simp_all add: valid_nullptr)
  let ?L = "length (blocks h)"
  define h1 where "h1 = h\<lparr>blocks := blocks h @ [replicate (Suc 0) None], free_slots := free_slots h - Suc 0,
      in_use := length (blocks h) # in_use h\<rparr>"
  let ?nd = "\<lparr>m_buffer = Ptr ?L 0, m_capacity = Suc 0\<rparr>"
  have ctor: "RawMemory_ctor T (Suc 0) h = Inr (?nd, h1)"
    unfolding h1_def using assms(3,5) by (intro RawMemory_ctor_ok) simp_all
  have h1: "length (blocks h1) = Suc ?L" "blocks h1 ! ?L = [None]" "in_use h1 = ?L # in_use h"
    by (simp_all add: h1_def)
  define h2 where "h2 = set_block ?L [Some x] h1"
  have "construct_copy (Ptr ?L 0) a h1 = construct_at (Ptr ?L 0) x h1"
    unfolding h1_def using assms(4) by (rule construct_copy_alloc)
  then have c2: "construct_copy (Ptr ?L 0) a h1 = Inr h2"
    by (simp add: construct_at_Ptr h1 h2_def)
  let ?v' = "v\<lparr>m_data := ?nd, m_size := Suc 0\<rparr>"
  have rb: "replace_buffer v ?nd h2 = Inr (v\<lparr>m_data := ?nd\<rparr>, h2)"
    using assms(1) z by (simp add: replace_buffer_null)
  have res: "Emplace T nullptr a v h = Inr (Ptr ?L 0, ?v', h2)"
    using assms(1) z
    by (simp add: Emplace_alt Vector_end_def RawMemory_plus_def assert_def Vector_begin_def GetAddress_def
        Size_def Capacity_def RawMemory_Capacity_def ctor c2 UninitializedMoveOrCopy_def
        uninitialized_move_def uninitialized_copy_def rb)
  have h2: "length (blocks h2) = Suc ?L" "blocks h2 ! ?L = [Some x]" "in_use h2 = ?L # in_use h"
    by (simp_all add: h2_def h1)
  have val: "valid h2 ?v'" by (simp add: valid_def h2)
  have tl: "to_list h2 ?v' = [Inr x]"
    by (simp add: to_list_def Size_def Vector_index_def assert_def RawMemory_index_def load_def h2)
  show ?thesis
    using res val tl assms(1) z by (simp add: Size_def Vector_begin_def GetAddress_def to_list_empty)
qed


lemma Emplace_realloc:
  assumes "valid h v" "Size v = Capacity v" "0 < Size v" "i \<le> Size v"
    "2 * Size v \<le> free_slots h" "read_arg a h = Inr x" "fits T (2 * Size v)"
  shows "\<exists>v' h'. Emplace T (ptr_add (Vector_begin v) i) a v h =
             Inr (ptr_add (Vector_begin v') i, v', h') \<and> Size v' = Size v + 1 \<and>
           to_list h' v' = take i (to_list h v) @ [Inr x] @ drop i (to_list h v) \<and> valid h' v'"
proof -
  let ?c = "m_size v"
  let ?N = "?c * 2"
  let ?L = "length (blocks h)"
  have cap: "m_capacity (m_data v) = ?c" and c0: "0 < ?c" and ic: "i \<le> ?c"
    using assms by (simp_all add: Size_def Capacity_def RawMemory_Capacity_def)
  from c0 cap have "0 < m_capacity (m_data v)" by simp
  from valid_PtrE [OF assms(1) this] obtain b where
    v: "m_buffer (m_data v) = Ptr b 0" "b < ?L" "length (blocks h ! b) = ?c"
      "live (take ?c (blocks h ! b))" "b \<in> set (in_use h)"
    unfolding cap by blast
  let ?B = "blocks h ! b"
  have lB: "live ?B" using v by simp
  define h1 where "h1 = h\<lparr>blocks := blocks h @ [replicate ?N None], free_slots := free_slots h - ?N,
      in_use := length (blocks h) # in_use h\<rparr>"
  let ?nd = "\<lparr>m_buffer = Ptr ?L 0, m_capacity = ?N\<rparr>"
  have ctor: "RawMemory_ctor T ?N h = Inr (?nd, h1)"
    unfolding h1_def using c0 assms(5,7) by (intro RawMemory_ctor_ok) (simp_all add: Size_def mult.commute)
  have h1: "length (blocks h1) = Suc ?L" "blocks h1 ! ?L = replicate ?N None"
    "blocks h1 ! b = ?B"
    using v by (simp_all add: h1_def nth_append)
  define R where "R = (replicate ?N None)[i := Some x]"
  have R: "length R = ?N" "drop i R = Some x # replicate (?N - Suc i) None" "take i R = replicate i None"
    using ic c0 by (simp_all add: R_def upd_conv_take_nth_drop min_def)
  define h2 where "h2 = set_block ?L R h1"
  have "construct_copy (Ptr ?L i) a h1 = construct_at (Ptr ?L i) x h1"
    unfolding h1_def using assms(6) by (rule construct_copy_alloc)
  then have c2: "construct_copy (Ptr ?L i) a h1 = Inr h2"
    using ic c0 by (simp add: construct_at_Ptr h1 h2_def R_def)
  have h2: "length (blocks h2) = Suc ?L" "blocks h2 ! ?L = R" "blocks h2 ! b = ?B"
    using v by (simp_all add: h2_def h1)
  obtain B' where
    t1: "UninitializedMoveOrCopyN T (Ptr b 0) i (Ptr ?L 0) h2 =
           Inr (set_block ?L (take 0 (blocks h2 ! ?L) @ take i (drop 0 (blocks h2 ! b)) @
                              drop (0 + i) (blocks h2 ! ?L)) (set_block b B' h2))"
    and B': "length B' = length (blocks h2 ! b)" "live (take i (drop 0 B'))"
      "drop (0 + i) B' = drop (0 + i) (blocks h2 ! b)"
    using UninitializedMoveOrCopyN_block [of b h2 ?L 0 i 0 T] v ic c0 lB
    by (auto simp: h2 R live_take)
  define h3 where "h3 = set_block ?L (take i ?B @ drop i R) (set_block b B' h2)"
  have t1': "UninitializedMoveOrCopyN T (Ptr b 0) i (Ptr ?L 0) h2 = Inr h3"
    using t1 by (simp add: h3_def h2)
  have B'2: "length B' = ?c" "live (take i B')" "drop i B' = drop i ?B"
    using B' v by (simp_all add: h2)
  have h3: "length (blocks h3) = Suc ?L" "blocks h3 ! ?L = take i ?B @ drop i R" "blocks h3 ! b = B'"
    using v by (simp_all add: h3_def h2)
  let ?L3 = "take i ?B @ drop i R"
  have "drop (Suc ?c) ?L3 = drop (Suc ?c) R"
    using ic v by simp
  also have "\<dots> = replicate (?N - Suc ?c) None"
    unfolding R_def using ic by (simp add: drop_update_cancel)
  finally have L3c: "drop (Suc ?c) ?L3 = replicate (?N - Suc ?c) None" .
  have sc: "Suc i + (?c - i) = Suc ?c" using ic by simp
  have L3: "length ?L3 = ?N" "take (Suc i) ?L3 = take i ?B @ [Some x]"
    "drop (Suc i + (?c - i)) ?L3 = replicate (?N - Suc ?c) None"
    using ic v c0 by (simp_all only: sc L3c) (simp_all add: R min_def)
  obtain B'' where
    t2: "UninitializedMoveOrCopyN T (Ptr b i) (?c - i) (Ptr ?L (Suc i)) h3 =
           Inr (set_block ?L (take (Suc i) (blocks h3 ! ?L) @ take (?c - i) (drop i (blocks h3 ! b)) @
                              drop (Suc i + (?c - i)) (blocks h3 ! ?L)) (set_block b B'' h3))"
    and B'': "length B'' = length (blocks h3 ! b)" "live (take (?c - i) (drop i B''))"
      "take i B'' = take i (blocks h3 ! b)"
  proof -
    have p: "b < length (blocks h3)" "?L < length (blocks h3)" "b \<noteq> ?L"
      "i + (?c - i) \<le> length (blocks h3 ! b)" "Suc i + (?c - i) \<le> length (blocks h3 ! ?L)"
      "live (take (?c - i) (drop i (blocks h3 ! b)))"
      using v ic c0 lB by (simp_all only: h3 L3(1) B'2) (simp_all add: live_take live_drop)
    from UninitializedMoveOrCopyN_block [OF p, of T] that show ?thesis by blast
  qed
  define L4 where "L4 = take i ?B @ [Some x] @ drop i ?B @ replicate (?N - Suc ?c) None"
  define h4 where "h4 = set_block ?L L4 (set_block b B'' h3)"
  have mid: "take (?c - i) (drop i B') = drop i ?B"
    using B'2(3) v by simp
  have t2': "UninitializedMoveOrCopyN T (Ptr b i) (?c - i) (Ptr ?L (Suc i)) h3 = Inr h4"
    using t2 unfolding h3(2,3) L3(2,3) mid L4_def h4_def by simp
  have B''2: "length B'' = ?c" "live (take ?c B'')"
  proof -
    show l: "length B'' = ?c" using B'' by (simp add: h3 B'2)
    have "take ?c B'' = take i B'' @ take (?c - i) (drop i B'')"
      using ic by (metis le_add_diff_inverse take_add)
    moreover have "live (take i B'')" using B''(3) B'2(2) by (simp only: h3)
    ultimately show "live (take ?c B'')"
      using B''(2) by (simp only: live_simps)
  qed
  have h4: "length (blocks h4) = Suc ?L" "blocks h4 ! ?L = L4" "blocks h4 ! b = B''" "b < length (blocks h4)"
    "in_use h4 = ?L # in_use h"
    using v by (simp_all add: h4_def h3_def h2_def h1_def)
  define h5 where "h5 = (set_block b [] h4)\<lparr>free_slots := free_slots h4 + length (blocks h4 ! b),
      in_use := removeAll b (in_use h4)\<rparr>"
  have rb: "replace_buffer v ?nd h4 = Inr (v\<lparr>m_data := ?nd\<rparr>, h5)"
    unfolding h5_def using v(1,5) h4 B''2 c0 by (intro replace_buffer_block) simp_all
  let ?v' = "v\<lparr>m_data := ?nd, m_size := ?c + 1\<rparr>"
  have res: "Emplace T (Ptr b i) a v h = Inr (Ptr ?L i, ?v', h5)"
    using assms(1,2) v(1) ic c0 cap
    by (simp add: Emplace_alt Vector_end_valid Vector_begin_def GetAddress_def assert_def
        RawMemory_plus_def ctor c2 UninitializedMoveOrCopy_range t1' t2' rb)
  have h5: "length (blocks h5) = Suc ?L" "blocks h5 ! ?L = L4" "?L \<in> set (in_use h5)"
    using v by (simp_all add: h5_def h4)
  have len4: "length L4 = ?N"
    using ic v c0 by (simp add: L4_def)
  let ?P = "take i ?B @ [Some x] @ drop i ?B"
  have lp: "length ?P = Suc ?c" using ic v by simp
  have "?P @ replicate (?N - Suc ?c) None = L4" by (simp add: L4_def)
  then have "?P = take (length ?P) L4" by (simp only: append_eq_conv_conj)
  then have tk: "take (Suc ?c) L4 = ?P" unfolding lp by (rule sym)
  have lv: "live (take (Suc ?c) L4)"
    unfolding tk using lB by (simp add: live_take live_drop)
  have val: "valid h5 ?v'"
    using c0 lv by (simp add: valid_def h5 len4)
  have "to_list h5 ?v' = map (\<lambda>s. Inr (the s)) (take (m_size ?v') (blocks h5 ! ?L))"
    using c0 lv by (intro to_list_block) (simp_all add: h5 len4)
  also have "\<dots> = map (\<lambda>s. Inr (the s)) ?P"
    by (simp add: h5 tk)
  also have "\<dots> = take i (map (\<lambda>s. Inr (the s)) (take ?c ?B)) @ [Inr x] @
                    drop i (map (\<lambda>s. Inr (the s)) (take ?c ?B))"
    using v by (simp add: take_map drop_map)
  also have "map (\<lambda>s. Inr (the s)) (take ?c ?B) = to_list h v"
    using v cap to_list_block [of v b h] by simp
  finally have tl: "to_list h5 ?v' = take i (to_list h v) @ [Inr x] @ drop i (to_list h v)" .
  show ?thesis
    using res val tl v(1) by (simp add: Size_def Vector_begin_def GetAddress_def)
qed

section \<open>An argument that is moved from\<close>

lemma valid_poke:
  assumes "valid h v" "slot_at h q = Some (Some x)"
  shows "valid (poke q (Some y) h) v"
proof (cases q)
  case nullptr
  with assms show ?thesis by simp
next
  case (Ptr b i)
  with assms(2) have q: "b < length (blocks h)" "i < length (blocks h ! b)"
    by (auto split: if_splits)
  show ?thesis
  proof (cases "m_buffer (m_data v)")
    case nullptr
    with assms(1) show ?thesis by (simp add: valid_def)
  next
    case (Ptr c j)
    note P = this
    show ?thesis
    proof (cases "c = b")
      case True
      have "live (take n (xs[i := Some y]))" if "live (take n xs)" for n and xs :: "'a option list"
        using that by (auto simp: live_def list_all_iff take_update_swap dest!: set_update_subset_insert [THEN subsetD])
      with assms(1) P True q \<open>q = Ptr b i\<close> show ?thesis by (simp add: valid_def)
    next
      case False
      with assms(1) P q \<open>q = Ptr b i\<close> show ?thesis by (simp add: valid_def)
    qed
  qed
qed

lemma to_list_poke:
  assumes "valid h v" "slot_at h (Ptr b i) = Some (Some x)"
  shows "to_list (poke (Ptr b i) (Some y) h) v =
         (if m_buffer (m_data v) = Ptr b 0 then (to_list h v)[i := Inr y] else to_list h v)"
proof (cases "m_buffer (m_data v)")
  case nullptr
  with assms(1) show ?thesis by (simp add: valid_nullptr to_list_empty)
next
  case (Ptr c j)
  from assms(2) have q: "b < length (blocks h)" "i < length (blocks h ! b)"
    by (auto split: if_splits)
  from Ptr assms(1) have "j = 0 \<and> c < length (blocks h) \<and> c \<in> set (in_use h) \<and> 0 < m_capacity (m_data v) \<and>
      length (blocks h ! c) = m_capacity (m_data v) \<and> m_size v \<le> m_capacity (m_data v) \<and>
      live (take (m_size v) (blocks h ! c))"
    by (simp only: valid_Ptr)
  then have v: "m_buffer (m_data v) = Ptr c 0" "c < length (blocks h)"
    "length (blocks h ! c) = m_capacity (m_data v)" "m_size v \<le> m_capacity (m_data v)"
    "live (take (m_size v) (blocks h ! c))"
    using Ptr by simp_all
  let ?h' = "poke (Ptr b i) (Some y) h"
  have v': "valid ?h' v" using assms by (rule valid_poke)
  have l: "to_list h v = map (\<lambda>s. Inr (the s)) (take (m_size v) (blocks h ! c))"
    using v by (rule to_list_block)
  show ?thesis
  proof (cases "c = b")
    case True
    have "to_list ?h' v = map (\<lambda>s. Inr (the s)) (take (m_size v) (blocks ?h' ! c))"
      using v v' by (intro to_list_block) (simp_all add: valid_def)
    also have "\<dots> = (map (\<lambda>s. Inr (the s)) (take (m_size v) (blocks h ! c)))[i := Inr y]"
      using True v by (simp add: take_update_swap map_update)
    finally show ?thesis using True v l by simp
  next
    case False
    have "to_list ?h' v = to_list h v"
      using assms(1) by (rule valid_frame(2)) (use False v in simp_all)
    with False v show ?thesis by simp
  qed
qed


lemma construct_move_Ref_alloc:
  assumes "load q h = Inr x"
  shows "construct_move T (Ptr (length (blocks h)) c) (Ref q)
           (h\<lparr>blocks := blocks h @ [xs], free_slots := k, in_use := u\<rparr>) =
         construct_at (Ptr (length (blocks h)) c) x
           (let h0 = poke q (Some (moved_from T x)) h
            in h0\<lparr>blocks := blocks h0 @ [xs], free_slots := k, in_use := u\<rparr>)"
proof -
  from assms obtain b i where q: "q = Ptr b i" "b < length (blocks h)" "i < length (blocks h ! b)"
    "blocks h ! b ! i = Some x"
    by (cases q) (auto simp: load_def split: if_splits option.splits)
  let ?h1 = "h\<lparr>blocks := blocks h @ [xs], free_slots := k, in_use := u\<rparr>"
  have l: "load q ?h1 = Inr x"
    using q by (simp add: load_def nth_append)
  show ?thesis
    using q l
    by (simp add: construct_move_def move_construct_def construct_at_def Let_def set_block_def
        nth_append list_update_append list_update_swap split: option.splits)
qed

lemma PushBack_move_Ref:
  assumes "Size v = Capacity v" "load q h = Inr x"
    "max 1 (2 * Capacity v) \<le> free_slots h" "fits T (max 1 (2 * Capacity v))"
  shows "PushBack_move T (Ref q) v h =
         PushBack_move T (Value x) v (poke q (Some (moved_from T x)) h)"
proof -
  define N where "N = (if m_size v = 0 then 1 else m_size v * 2)"
  have N: "N = max 1 (2 * Capacity v)" "0 < N"
    using assms(1) by (simp_all add: N_def Size_def)
  let ?h0 = "poke q (Some (moved_from T x)) h"
  have f0: "free_slots ?h0 = free_slots h" "length (blocks ?h0) = length (blocks h)"
    "in_use ?h0 = in_use h"
    by (cases q; simp)+
  have c1: "RawMemory_ctor T N h = Inr (\<lparr>m_buffer = Ptr (length (blocks h)) 0, m_capacity = N\<rparr>,
      h\<lparr>blocks := blocks h @ [replicate N None], free_slots := free_slots h - N,
        in_use := length (blocks h) # in_use h\<rparr>)"
    using N assms by (intro RawMemory_ctor_ok) simp_all
  have c2: "RawMemory_ctor T N ?h0 = Inr (\<lparr>m_buffer = Ptr (length (blocks h)) 0, m_capacity = N\<rparr>,
      ?h0\<lparr>blocks := blocks ?h0 @ [replicate N None], free_slots := free_slots h - N,
        in_use := length (blocks h) # in_use h\<rparr>)"
    using RawMemory_ctor_ok [of N T ?h0] N assms by (simp add: f0)
  show ?thesis
    using assms(1)
    by (simp add: PushBack_move_def N_def [symmetric] c1 c2 RawMemory_plus_def assert_def
        construct_move_Ref_alloc [OF assms(2)] Let_def)
       (simp add: construct_move_def)
qed

section \<open>The example vectors\<close>

lemma numeral_steps:
  "uninitialized_value_construct_n T p (numeral k) h =
     and_then (construct_at p (value_init T) h) (uninitialized_value_construct_n T (ptr_add p 1) (pred_numeral k))"
  "uninitialized_copy_n src (numeral k) dst h =
     and_then (copy_construct dst src h) (uninitialized_copy_n (ptr_add src 1) (pred_numeral k) (ptr_add dst 1))"
  "uninitialized_move_n T src (numeral k) dst h =
     and_then (move_construct T dst src h) (uninitialized_move_n T (ptr_add src 1) (pred_numeral k) (ptr_add dst 1))"
  "destroy_n p (numeral k) h = and_then (destroy_at p h) (destroy_n (ptr_add p 1) (pred_numeral k))"
  "copy_n src (numeral k) dst h =
     and_then (copy_assign dst src h) (copy_n (ptr_add src 1) (pred_numeral k) (ptr_add dst 1))"
  "move_n T firstp (numeral k) d_first h =
     and_then (move_assign T d_first firstp h) (move_n T (ptr_add firstp 1) (pred_numeral k) (ptr_add d_first 1))"
  "replicate (numeral k) y = y # replicate (pred_numeral k) y"
  "(z # zs)[numeral k := y] = z # zs[pred_numeral k := y]"
  by (simp_all add: numeral_eq_Suc)

lemma example_type_facts:
  "fits int_type 1" "fits int_type 3" "fits int_type 4" "fits int_type 5" "fits int_type 10"
  "fits moving_type 4" "moved_from moving_type x = - 1" "value_init int_type = 0"
  by (simp_all add: fits_def int_type_def moving_type_def)

lemma vec56_facts:
  "valid mem56 vec56" "Size vec56 = 2" "Capacity vec56 = 2" "free_slots mem56 = 10"
  "to_list mem56 vec56 = [Inr 5, Inr 6]"
  "load (Ptr 0 0) mem56 = Inr 5" "m_buffer (m_data vec56) = Ptr 0 0"
  by (simp_all add: valid_def mem56_def vec56_def Size_def Capacity_def RawMemory_Capacity_def
      to_list_def Vector_index_def assert_def RawMemory_index_def load_def upt_rec)

lemma vec123_facts:
  "valid mem123 vec123" "Size vec123 = 3" "Capacity vec123 = 4" "free_slots mem123 = 10"
  "to_list mem123 vec123 = [Inr 1, Inr 2, Inr 3]"
  by (simp_all add: valid_def mem123_def vec123_def Size_def Capacity_def RawMemory_Capacity_def
      to_list_def Vector_index_def assert_def RawMemory_index_def load_def upt_rec)

lemma vec1992_facts:
  "valid mem1992 vec1992" "Size vec1992 = 4" "Capacity vec1992 = 4" "free_slots mem1992 = 10"
  "to_list mem1992 vec1992 = [Inr 1, Inr 99, Inr 2, Inr 3]"
  by (simp_all add: valid_def mem1992_def vec1992_def Size_def Capacity_def RawMemory_Capacity_def
      to_list_def Vector_index_def assert_def RawMemory_index_def load_def upt_rec)

lemma vecs_two_facts:
  "valid mem_two (vecs_two 2)" "valid mem_two (vecs_two 3)"
  "Size (vecs_two 2) = 2" "Capacity (vecs_two 2) = 2" "Size (vecs_two 3) = 3" "Capacity (vecs_two 3) = 4"
  "to_list mem_two (vecs_two 2) = [Inr 5, Inr 6]" "to_list mem_two (vecs_two 3) = [Inr 1, Inr 2, Inr 3]"
  "m_data (vecs_two 2) = \<lparr>m_buffer = Ptr 0 0, m_capacity = 2\<rparr>"
  "m_data (vecs_two 3) = \<lparr>m_buffer = Ptr 1 0, m_capacity = 4\<rparr>"
  "free_slots mem_two = 10" "length (blocks mem_two) = 2"
  by (simp_all add: valid_def mem_two_def vecs_two_def Size_def Capacity_def RawMemory_Capacity_def
      to_list_def Vector_index_def assert_def RawMemory_index_def load_def upt_rec)

section \<open>Moves\<close>

text \<open>
  C3, as the code has it: \<open>operator=(RawMemory&&)\<close> is \<open>Swap\<close>, so after \<open>a = std::move(b)\<close>
  the source \<open>b\<close> holds the buffer and the capacity that \<open>a\<close> had, and \<open>a\<close> holds those
  of \<open>b\<close>. The source is empty afterwards exactly when the target was empty before.
\<close>

theorem RawMemory_move_assign_exchanges:
  "RawMemory_move_assign this rhs rs rhs = rs this \<and>
   RawMemory_move_assign this rhs rs this = rs rhs \<and>
   (m_capacity (RawMemory_move_assign this rhs rs rhs) = 0 \<longleftrightarrow> m_capacity (rs this) = 0) \<and>
   (m_buffer (RawMemory_move_assign this rhs rs rhs) = nullptr \<longleftrightarrow> m_buffer (rs this) = nullptr)"
  by (simp add: RawMemory_move_assign_def RawMemory_Swap_this RawMemory_Swap_other)

text \<open>
  C3 as stated fails: a target that owns a block of two slots hands it to the source.
\<close>

theorem RawMemory_move_assign_counterexample:
  "\<not> (m_capacity (RawMemory_move_assign 0 1
         ((\<lambda>_. \<lparr>m_buffer = nullptr, m_capacity = 0\<rparr>)
            (0 := \<lparr>m_buffer = Ptr 0 0, m_capacity = 2\<rparr>,
             1 := \<lparr>m_buffer = Ptr 1 0, m_capacity = 3\<rparr>)) 1) = 0
      \<and> m_buffer (RawMemory_move_assign 0 1
         ((\<lambda>_. \<lparr>m_buffer = nullptr, m_capacity = 0\<rparr>)
            (0 := \<lparr>m_buffer = Ptr 0 0, m_capacity = 2\<rparr>,
             1 := \<lparr>m_buffer = Ptr 1 0, m_capacity = 3\<rparr>)) 1) = nullptr)"
  by (simp add: RawMemory_move_assign_def RawMemory_Swap_def Let_def)

text \<open>
  C1, as the code has it. The move constructor leaves its source with length 0, capacity 0
  and no buffer, and the new vector is what the source was. Move assignment
  \<open>b = std::move(a)\<close> of two different vectors exchanges the buffers: the source \<open>a\<close> is left
  with length 0 and with the buffer and the capacity that \<open>b\<close> had, and \<open>b\<close> is what \<open>a\<close> was
  (its buffer, capacity and length, so its elements).
\<close>

theorem move_leaves_source_without_elements:
  "(case Vector_move_ctor a of (b, a') \<Rightarrow>
      Size a' = 0 \<and> Capacity a' = 0 \<and> m_buffer (m_data a') = nullptr \<and>
      b = a \<and> to_list h b = to_list h a) \<and>
   (this \<noteq> rhs \<longrightarrow>
      (let vs' = Vector_move_assign this rhs vs in
       Size (vs' rhs) = 0 \<and> m_data (vs' rhs) = m_data (vs this) \<and>
       Capacity (vs' rhs) = Capacity (vs this) \<and>
       vs' this = vs rhs \<and> to_list h (vs' this) = to_list h (vs rhs)))"
proof -
  have ctor: "Vector_move_ctor a = (a, a\<lparr>m_data := \<lparr>m_buffer = nullptr, m_capacity = 0\<rparr>, m_size := 0\<rparr>)"
    by (simp add: Vector_move_ctor_def RawMemory_move_ctor_def Let_def)
  have assign: "this \<noteq> rhs \<Longrightarrow>
      Vector_move_assign this rhs vs rhs = \<lparr>m_data = m_data (vs this), m_size = 0\<rparr> \<and>
      Vector_move_assign this rhs vs this = vs rhs"
    by (simp add: Vector_move_assign_def RawMemory_move_assign_def with_data_def data_of_def
        RawMemory_Swap_this RawMemory_Swap_other Let_def)
  show ?thesis
    using assign by (simp add: ctor Size_def Capacity_def RawMemory_Capacity_def Let_def)
qed

theorem move_leaves_source_without_elements_witness:
  "(case Vector_move_ctor \<lparr>m_data = \<lparr>m_buffer = Ptr 1 0, m_capacity = 3\<rparr>, m_size = 2\<rparr> of
      (b, a') \<Rightarrow> Size a' = 0 \<and> Capacity a' = 0 \<and> m_buffer (m_data a') = nullptr \<and>
        b = \<lparr>m_data = \<lparr>m_buffer = Ptr 1 0, m_capacity = 3\<rparr>, m_size = 2\<rparr>) \<and>
   (0::nat) \<noteq> 1 \<and>
   Size (Vector_move_assign 0 1
      ((\<lambda>_. \<lparr>m_data = \<lparr>m_buffer = nullptr, m_capacity = 0\<rparr>, m_size = 0\<rparr>)
         (0 := \<lparr>m_data = \<lparr>m_buffer = Ptr 0 0, m_capacity = 2\<rparr>, m_size = 1\<rparr>,
          1 := \<lparr>m_data = \<lparr>m_buffer = Ptr 1 0, m_capacity = 3\<rparr>, m_size = 2\<rparr>)) 1) = 0 \<and>
   Capacity (Vector_move_assign 0 1
      ((\<lambda>_. \<lparr>m_data = \<lparr>m_buffer = nullptr, m_capacity = 0\<rparr>, m_size = 0\<rparr>)
         (0 := \<lparr>m_data = \<lparr>m_buffer = Ptr 0 0, m_capacity = 2\<rparr>, m_size = 1\<rparr>,
          1 := \<lparr>m_data = \<lparr>m_buffer = Ptr 1 0, m_capacity = 3\<rparr>, m_size = 2\<rparr>)) 1) = 2 \<and>
   Vector_move_assign 0 1
      ((\<lambda>_. \<lparr>m_data = \<lparr>m_buffer = nullptr, m_capacity = 0\<rparr>, m_size = 0\<rparr>)
         (0 := \<lparr>m_data = \<lparr>m_buffer = Ptr 0 0, m_capacity = 2\<rparr>, m_size = 1\<rparr>,
          1 := \<lparr>m_data = \<lparr>m_buffer = Ptr 1 0, m_capacity = 3\<rparr>, m_size = 2\<rparr>)) 0
     = \<lparr>m_data = \<lparr>m_buffer = Ptr 1 0, m_capacity = 3\<rparr>, m_size = 2\<rparr>"
  using move_leaves_source_without_elements
    [of "\<lparr>m_data = \<lparr>m_buffer = Ptr 1 0, m_capacity = 3\<rparr>, m_size = 2\<rparr>"
        "\<lparr>blocks = [[Some (5::int), None], [Some 7, Some 8, None]], free_slots = 0, in_use = [0, 1]\<rparr>"
        0 1
        "(\<lambda>_. \<lparr>m_data = \<lparr>m_buffer = nullptr, m_capacity = 0\<rparr>, m_size = 0\<rparr>)
         (0 := \<lparr>m_data = \<lparr>m_buffer = Ptr 0 0, m_capacity = 2\<rparr>, m_size = 1\<rparr>,
          1 := \<lparr>m_data = \<lparr>m_buffer = Ptr 1 0, m_capacity = 3\<rparr>, m_size = 2\<rparr>)"]
  by (simp add: Let_def Capacity_def RawMemory_Capacity_def split: prod.splits)

text \<open>
  C1 as stated fails for move assignment: the source keeps a capacity, the one of the
  target (here 2).
\<close>

theorem move_assign_source_capacity_counterexample:
  "\<not> (Size (Vector_move_assign 0 1
        ((\<lambda>_. \<lparr>m_data = \<lparr>m_buffer = nullptr, m_capacity = 0\<rparr>, m_size = 0\<rparr>)
           (0 := \<lparr>m_data = \<lparr>m_buffer = Ptr 0 0, m_capacity = 2\<rparr>, m_size = 1\<rparr>,
            1 := \<lparr>m_data = \<lparr>m_buffer = Ptr 1 0, m_capacity = 3\<rparr>, m_size = 2\<rparr>)) 1) = 0 \<and>
      Capacity (Vector_move_assign 0 1
        ((\<lambda>_. \<lparr>m_data = \<lparr>m_buffer = nullptr, m_capacity = 0\<rparr>, m_size = 0\<rparr>)
           (0 := \<lparr>m_data = \<lparr>m_buffer = Ptr 0 0, m_capacity = 2\<rparr>, m_size = 1\<rparr>,
            1 := \<lparr>m_data = \<lparr>m_buffer = Ptr 1 0, m_capacity = 3\<rparr>, m_size = 2\<rparr>)) 1) = 0)"
  by (simp add: Vector_move_assign_def RawMemory_move_assign_def RawMemory_Swap_def with_data_def
      data_of_def Let_def Size_def Capacity_def RawMemory_Capacity_def)

text \<open>
  C10: \<open>v = std::move(v)\<close>. The buffer and the capacity stay, the length becomes 0, so no
  index is valid any more; the objects stay where they were (the assignment does not touch
  the memory), and the destructor of \<open>v\<close> destroys none of them: it only releases the buffer.
\<close>

theorem self_move_assign_forgets_elements:
  "m_data (Vector_move_assign v v vs v) = m_data (vs v) \<and>
   Capacity (Vector_move_assign v v vs v) = Capacity (vs v) \<and>
   Size (Vector_move_assign v v vs v) = 0 \<and>
   Vector_index (Vector_move_assign v v vs v) i h = Inl assertion_failed \<and>
   to_list h (Vector_move_assign v v vs v) = [] \<and>
   Vector_dtor (Vector_move_assign v v vs v) h = RawMemory_dtor (m_data (vs v)) h"
proof -
  have "Vector_move_assign v v vs v = (vs v)\<lparr>m_size := 0\<rparr>"
    by (simp add: Vector_move_assign_def RawMemory_move_assign_def with_data_def data_of_def
        RawMemory_Swap_this Let_def)
  then show ?thesis
    by (simp add: Size_def Capacity_def Vector_index_def assert_def to_list_def Vector_dtor_def)
qed

section \<open>Appending\<close>

text \<open>
  C4 as stated fails for \<open>PushBack(T&&)\<close> called with an element of the vector itself, as in
  \<open>v.PushBack(std::move(v[0]))\<close>. For \<open>v = [5, 6]\<close> of capacity 2 and an element type whose
  move constructor leaves \<open>-1\<close> in its source, the new element is move-constructed from
  \<open>v[0]\<close> in the new buffer before the old elements are transferred, so the result is
  \<open>[-1, 6, 5]\<close>: the first two elements are not the prior elements \<open>[5, 6]\<close>.
\<close>

theorem PushBack_move_own_element_counterexample:
  "Size vec56 = Capacity vec56 \<and> to_list mem56 vec56 = [Inr 5, Inr 6] \<and>
   load (Ptr 0 0) mem56 = Inr 5 \<and>
   PushBack_move moving_type (Ref (Ptr 0 0)) vec56 mem56 =
     Inr (\<lparr>m_data = \<lparr>m_buffer = Ptr 1 0, m_capacity = 4\<rparr>, m_size = 3\<rparr>,
          \<lparr>blocks = [[], [Some (- 1), Some 6, Some 5, None]], free_slots = 8, in_use = [1]\<rparr>) \<and>
   to_list \<lparr>blocks = [[], [Some (- 1), Some 6, Some 5, None]], free_slots = 8, in_use = [1]\<rparr>
     \<lparr>m_data = \<lparr>m_buffer = Ptr 1 0, m_capacity = 4\<rparr>, m_size = 3\<rparr> = [Inr (- 1), Inr 6, Inr 5]"
  by (simp add: vec56_facts)
     (simp add: PushBack_move_def RawMemory_ctor_def Allocate_def operator_new_def
      RawMemory_plus_def assert_def construct_move_def move_construct_def load_def construct_at_def
      UninitializedMoveOrCopyN_def destroy_at_def RawMemory_dtor_def Deallocate_def
      Vector_begin_def GetAddress_def Size_def Capacity_def RawMemory_Capacity_def
      mem56_def vec56_def moving_type_def set_block_def numeral_steps
      to_list_def Vector_index_def RawMemory_index_def upt_rec)

text \<open>
  C4, as the code has it: \<open>PushBack\<close> on a valid vector whose length equals its capacity
  \<open>c\<close>, with an argument that is a live object of value \<open>x\<close>, when the allocator can provide
  the \<open>max(1, 2c)\<close> slots of the new buffer and their byte count is a value of \<open>size_t\<close>
  (as it is whenever the \<open>c\<close> elements take less than \<open>2 ^ 63\<close> bytes). Both overloads
  return, the capacity is then \<open>max(1, 2c)\<close>, the length \<open>c + 1\<close> and the last element \<open>x\<close>.
  After \<open>PushBack(const T&)\<close> the first \<open>c\<close> elements are the prior elements in order, also
  when the argument is an element of the vector itself. After \<open>PushBack(T&&)\<close> they are the
  prior elements in order when the argument is not an element of the vector (a temporary, a
  local, an object in another buffer); when it is the element at index \<open>i\<close>, that element is
  left in its moved-from state and the others are the prior elements.
\<close>

theorem PushBack_at_capacity_grows:
  assumes "valid h v" "Size v = Capacity v" "max 1 (2 * Capacity v) \<le> free_slots h"
    "fits T (max 1 (2 * Capacity v))" "read_arg a h = Inr x"
  shows "(\<exists>v' h'. PushBack T a v h = Inr (v', h') \<and> Capacity v' = max 1 (2 * Capacity v) \<and>
            Size v' = Capacity v + 1 \<and> to_list h' v' = to_list h v @ [Inr x]) \<and>
         (\<exists>v' h'. PushBack_move T a v h = Inr (v', h') \<and> Capacity v' = max 1 (2 * Capacity v) \<and>
            Size v' = Capacity v + 1 \<and>
            (\<not> refers_into a v \<longrightarrow> to_list h' v' = to_list h v @ [Inr x]) \<and>
            (\<forall>b i. a = Ref (Ptr b i) \<and> m_buffer (m_data v) = Ptr b 0 \<longrightarrow>
               to_list h' v' = (to_list h v)[i := Inr (moved_from T x)] @ [Inr x]))"
proof -
  have N: "(if m_size v = 0 then 1 else m_size v * 2) = max 1 (2 * Capacity v)"
    using assms(2) by (simp add: Size_def)
  have 1: "\<exists>v' h'. PushBack T a v h = Inr (v', h') \<and> Capacity v' = max 1 (2 * Capacity v) \<and>
              Size v' = Capacity v + 1 \<and> to_list h' v' = to_list h v @ [Inr x]"
    using grow_with_realloc [where v=v and h=h and construct="\<lambda>T. construct_copy" and T=T and a=a and x=x]
      assms
    unfolding PushBack_grow_with N by (simp add: construct_copy_alloc) blast
  have val: "\<exists>v' h'. PushBack_move T (Value x) v h0 = Inr (v', h') \<and>
              Capacity v' = max 1 (2 * Capacity v) \<and>
              Size v' = Capacity v + 1 \<and> to_list h' v' = to_list h0 v @ [Inr x]"
    if "valid h0 v" "free_slots h0 = free_slots h" for h0
    using grow_with_realloc [where v=v and h=h0 and construct=construct_move and T=T and a="Value x" and x=x]
      assms(2-4) that
    unfolding PushBack_move_grow_with N by (simp add: construct_move_def) blast
  have 2: "\<exists>v' h'. PushBack_move T a v h = Inr (v', h') \<and> Capacity v' = max 1 (2 * Capacity v) \<and>
            Size v' = Capacity v + 1 \<and>
            (\<not> refers_into a v \<longrightarrow> to_list h' v' = to_list h v @ [Inr x]) \<and>
            (\<forall>b i. a = Ref (Ptr b i) \<and> m_buffer (m_data v) = Ptr b 0 \<longrightarrow>
               to_list h' v' = (to_list h v)[i := Inr (moved_from T x)] @ [Inr x])"
  proof (cases a)
    case (Value y)
    with assms(5) have "y = x" by (simp add: read_arg_def)
    with Value val [of h] assms(1) show ?thesis by (simp add: refers_into_def)
  next
    case (Ref q)
    with assms(5) have l: "load q h = Inr x" by (simp add: read_arg_def)
    then obtain b i where q: "q = Ptr b i" "slot_at h (Ptr b i) = Some (Some x)"
      by (cases q) (auto simp: load_def split: option.splits if_splits)
    let ?h0 = "poke q (Some (moved_from T x)) h"
    have eq: "PushBack_move T a v h = PushBack_move T (Value x) v ?h0"
      unfolding Ref using assms(2) l assms(3,4) by (rule PushBack_move_Ref)
    have v0: "valid ?h0 v" using assms(1) q(2) unfolding q(1) by (rule valid_poke)
    have f0: "free_slots ?h0 = free_slots h" by (simp add: q(1))
    have t0: "to_list ?h0 v =
         (if m_buffer (m_data v) = Ptr b 0 then (to_list h v)[i := Inr (moved_from T x)] else to_list h v)"
      unfolding q(1) using assms(1) q(2) by (rule to_list_poke)
    from val [OF v0 f0] show ?thesis
      unfolding eq t0 using Ref q(1) by (auto simp: refers_into_def)
  qed
  from 1 2 show ?thesis by blast
qed

theorem PushBack_at_capacity_grows_witness:
  "valid mem56 vec56 \<and> Size vec56 = Capacity vec56 \<and> max 1 (2 * Capacity vec56) \<le> free_slots mem56 \<and>
   fits moving_type (max 1 (2 * Capacity vec56)) \<and> read_arg (Ref (Ptr 0 0)) mem56 = Inr 5 \<and>
   (\<exists>v' h'. PushBack moving_type (Ref (Ptr 0 0)) vec56 mem56 = Inr (v', h') \<and>
      Capacity v' = 4 \<and> Size v' = 3 \<and> to_list h' v' = [Inr 5, Inr 6, Inr 5]) \<and>
   (\<exists>v' h'. PushBack_move moving_type (Ref (Ptr 0 0)) vec56 mem56 = Inr (v', h') \<and>
      Capacity v' = 4 \<and> Size v' = 3 \<and> to_list h' v' = [Inr (- 1), Inr 6, Inr 5]) \<and>
   (\<exists>v' h'. PushBack_move moving_type (Value 4) vec56 mem56 = Inr (v', h') \<and>
      Capacity v' = 4 \<and> Size v' = 3 \<and> to_list h' v' = [Inr 5, Inr 6, Inr 4])"
  using PushBack_at_capacity_grows [of mem56 vec56 moving_type "Ref (Ptr 0 0)" 5]
    PushBack_at_capacity_grows [of mem56 vec56 moving_type "Value 4" 4]
  by (simp add: vec56_facts read_arg_def example_type_facts refers_into_def)

section \<open>Reserve\<close>

text \<open>
  \<open>Reserve(n)\<close> on a valid vector, for \<open>n\<close> whose byte count \<open>n * sizeof(T)\<close> is a value of
  \<open>size_t\<close>. With \<open>n \<le> Capacity()\<close> nothing changes. Otherwise, when the allocator can
  provide \<open>n\<close> slots, the call returns with capacity exactly \<open>n\<close>, the same length and the
  same elements. And \<open>Vector<T> v; v.Reserve(10); v.PushBack(x);\<close> ends with length 1 and
  capacity 10, the push keeping the buffer that \<open>Reserve\<close> allocated.
\<close>

lemma Reserve_in_range:
  assumes "valid h v"
  shows "(n \<le> Capacity v \<longrightarrow> Reserve T n v h = Inr (v, h)) \<and>
         (Capacity v < n \<longrightarrow> n \<le> free_slots h \<longrightarrow> fits T n \<longrightarrow>
            (\<exists>v' h'. Reserve T n v h = Inr (v', h') \<and> Capacity v' = n \<and> Size v' = Size v \<and>
               to_list h' v' = to_list h v)) \<and>
         (10 \<le> free_slots h \<longrightarrow> fits T 10 \<longrightarrow>
            (\<exists>v1 h1 v2 h2. Reserve T 10 Vector_default h = Inr (v1, h1) \<and>
               PushBack T (Value x) v1 h1 = Inr (v2, h2) \<and>
               Size v2 = 1 \<and> Capacity v2 = 10 \<and> to_list h2 v2 = [Inr x] \<and>
               m_buffer (m_data v2) = m_buffer (m_data v1) \<and> length (blocks h2) = length (blocks h1)))"
proof -
  have noop: "n \<le> Capacity v \<longrightarrow> Reserve T n v h = Inr (v, h)"
    by (simp add: Reserve_def)
  have grows: "Capacity v < n \<longrightarrow> n \<le> free_slots h \<longrightarrow> fits T n \<longrightarrow>
            (\<exists>v' h'. Reserve T n v h = Inr (v', h') \<and> Capacity v' = n \<and> Size v' = Size v \<and>
               to_list h' v' = to_list h v)"
    using Reserve_grows [OF assms, of n T] by blast
  have scen: "\<exists>v1 h1 v2 h2. Reserve T 10 Vector_default h = Inr (v1, h1) \<and>
               PushBack T (Value x) v1 h1 = Inr (v2, h2) \<and>
               Size v2 = 1 \<and> Capacity v2 = 10 \<and> to_list h2 v2 = [Inr x] \<and>
               m_buffer (m_data v2) = m_buffer (m_data v1) \<and> length (blocks h2) = length (blocks h1)"
    if mem: "10 \<le> free_slots h" and fits: "fits T 10"
  proof -
    have "Capacity Vector_default < 10"
      by (simp add: Capacity_def RawMemory_Capacity_def Vector_default_def)
    from Reserve_grows [OF valid_default this mem fits]
    obtain v1 h1 where r: "Reserve T 10 Vector_default h = Inr (v1, h1)" "Capacity v1 = 10"
      "Size v1 = 0" "to_list h1 v1 = []" "valid h1 v1"
      by (auto simp: Size_def Vector_default_def to_list_empty)
    have "Size v1 \<noteq> Capacity v1" using r by simp
    from grow_with_in_place [OF r(5) this, of "\<lambda>T. construct_copy" T "Value x" x]
    obtain v2 h2 where "PushBack T (Value x) v1 h1 = Inr (v2, h2)" "Capacity v2 = Capacity v1"
      "Size v2 = Size v1 + 1" "to_list h2 v2 = to_list h1 v1 @ [Inr x]"
      "m_buffer (m_data v2) = m_buffer (m_data v1)" "length (blocks h2) = length (blocks h1)"
      by (auto simp: PushBack_grow_with construct_copy_def)
    with r show ?thesis by simp
  qed
  from noop grows scen show ?thesis by blast
qed

lemma Reserve_in_range_example:
  "valid mem56 vec56 \<and> 1 \<le> Capacity vec56 \<and> Capacity vec56 < 5 \<and> 5 \<le> free_slots mem56 \<and>
   10 \<le> free_slots mem56 \<and> fits int_type 5 \<and> fits int_type 10 \<and>
   Reserve int_type 1 vec56 mem56 = Inr (vec56, mem56) \<and>
   (\<exists>v' h'. Reserve int_type 5 vec56 mem56 = Inr (v', h') \<and>
      Capacity v' = 5 \<and> Size v' = 2 \<and> to_list h' v' = [Inr 5, Inr 6]) \<and>
   (\<exists>v1 h1 v2 h2. Reserve int_type 10 Vector_default mem56 = Inr (v1, h1) \<and>
      PushBack int_type (Value 1) v1 h1 = Inr (v2, h2) \<and>
      Size v2 = 1 \<and> Capacity v2 = 10 \<and> to_list h2 v2 = [Inr 1] \<and>
      m_buffer (m_data v2) = m_buffer (m_data v1) \<and> length (blocks h2) = length (blocks h1))"
  using Reserve_in_range [OF vec56_facts(1), of 1 int_type 1]
    Reserve_in_range [OF vec56_facts(1), of 5 int_type 1]
  by (simp add: vec56_facts example_type_facts)

text \<open>
  Outside that range the block that \<open>Allocate(n)\<close> obtains has room for fewer than \<open>n\<close>
  elements, while the constructor of \<open>RawMemory\<close> records the capacity \<open>n\<close>.
\<close>

lemma Allocate_room:
  assumes "Allocate T n h = Inr (p, h')" "n \<noteq> 0"
  shows "p = Ptr (length (blocks h)) 0"
    "length (blocks h' ! length (blocks h)) = (n * size_of T) mod 2 ^ 64 div size_of T"
  using assms by (auto simp: Allocate_def operator_new_def Let_def split: if_splits)

lemma Allocate_undersized:
  assumes "0 < size_of T" "2 ^ 64 \<le> n * size_of T"
  shows "(n * size_of T) mod 2 ^ 64 div size_of T < n"
proof -
  have "(n * size_of T) mod 2 ^ 64 < 2 ^ 64" by simp
  with assms(2) have "(n * size_of T) mod 2 ^ 64 < n * size_of T" by linarith
  then show ?thesis using assms(1) by (simp add: less_mult_imp_div_less)
qed

text \<open>
  C6 at \<open>v.Reserve(4611686018427387904)\<close>, which is \<open>2 ^ 62\<close>, for a \<open>Vector<int>\<close>.
  \<open>Allocate\<close> computes \<open>n * sizeof(int) = 2 ^ 64\<close> in \<open>size_t\<close>, which is 0, and
  \<open>operator new(0)\<close> returns a block with room for no element, over which \<open>RawMemory\<close> records
  the capacity \<open>2 ^ 62\<close>. For \<open>v = [5, 6]\<close> the transfer of the two elements writes past the
  end of that block. For an empty \<open>v\<close> the call returns with \<open>Capacity() == 2 ^ 62\<close> over the
  block without slots, and the \<open>PushBack\<close> that follows, which is to need no reallocation,
  writes past its end.
\<close>

theorem Reserve_beyond_size_t:
  "Allocate int_type (2 ^ 62) mem56 =
     Inr (Ptr 1 0, \<lparr>blocks = [[Some 5, Some 6], []], free_slots = 10, in_use = [1, 0]\<rparr>) \<and>
   Reserve int_type (2 ^ 62) vec56 mem56 = Inl undefined_behaviour \<and>
   Reserve int_type (2 ^ 62) Vector_default mem56 =
     Inr (\<lparr>m_data = \<lparr>m_buffer = Ptr 1 0, m_capacity = 2 ^ 62\<rparr>, m_size = 0\<rparr>,
          \<lparr>blocks = [[Some 5, Some 6], []], free_slots = 10, in_use = [1, 0]\<rparr>) \<and>
   PushBack int_type (Value 1) \<lparr>m_data = \<lparr>m_buffer = Ptr 1 0, m_capacity = 2 ^ 62\<rparr>, m_size = 0\<rparr>
       \<lparr>blocks = [[Some 5, Some 6], []], free_slots = 10, in_use = [1, 0]\<rparr> =
     Inl undefined_behaviour"
  by (simp add: Allocate_def operator_new_def int_type_def mem56_def vec56_def Reserve_def
      RawMemory_ctor_def Capacity_def RawMemory_Capacity_def GetAddress_def numeral_steps
      move_construct_def load_def construct_at_def Vector_default_def RawMemory_dtor_def
      Deallocate_def PushBack_def Size_def RawMemory_plus_def assert_def construct_copy_def)

section \<open>Resize\<close>

text \<open>
  \<open>Resize(n)\<close> on a valid vector of length \<open>m\<close>, when \<open>n\<close> fits the capacity, or the byte
  count \<open>n * sizeof(T)\<close> is a value of \<open>size_t\<close> and the allocator can provide \<open>n\<close> slots.
  The call returns with length \<open>n\<close>; the elements are the
  first \<open>min(m, n)\<close> former ones, followed for \<open>n > m\<close> by \<open>n - m\<close> value-initialised ones.
  For \<open>n = m\<close> nothing changes. For \<open>n < m\<close> only the length changes and the slots
  \<open>[n, m)\<close> of the buffer are raw memory again: their objects were destroyed.
\<close>

lemma Resize_in_range:
  assumes "valid h v" "n \<le> Capacity v \<or> n \<le> free_slots h \<and> fits T n"
  shows "\<exists>v' h'. Resize T n v h = Inr (v', h') \<and> Size v' = n \<and>
           to_list h' v' = take n (to_list h v) @ replicate (n - Size v) (Inr (value_init T)) \<and>
           (n = Size v \<longrightarrow> v' = v \<and> h' = h) \<and>
           (n < Size v \<longrightarrow> v' = v\<lparr>m_size := n\<rparr> \<and>
              (\<forall>i. n \<le> i \<and> i < Size v \<longrightarrow> slot_at h' (ptr_add (Vector_begin v) i) = Some None))"
proof -
  consider (same) "n = m_size v" | (shrink) "n < m_size v" | (grow) "m_size v < n" by linarith
  then show ?thesis
  proof cases
    case same
    then show ?thesis by (simp add: Resize_def Size_def)
  next
    case shrink
    let ?m = "m_size v"
    from shrink valid_size_le [OF assms(1)] have "0 < m_capacity (m_data v)" by simp
    from valid_PtrE [OF assms(1) this] obtain b where
      v: "m_buffer (m_data v) = Ptr b 0" "b < length (blocks h)"
        "length (blocks h ! b) = m_capacity (m_data v)" "?m \<le> m_capacity (m_data v)"
        "live (take ?m (blocks h ! b))"
      by blast
    let ?B = "blocks h ! b"
    define h' where "h' = set_block b (take n ?B @ replicate (?m - n) None @ drop ?m ?B) h"
    have "take (?m - n) (drop n ?B) = drop n (take ?m ?B)"
      by (simp add: drop_take)
    then have "live (take (?m - n) (drop n ?B))"
      using v(5) by (simp add: live_drop)
    then have d: "destroy_n (Ptr b n) (?m - n) h = Inr h'"
      using v shrink by (simp add: destroy_n_block h'_def)
    let ?v' = "v\<lparr>m_size := n\<rparr>"
    have res: "Resize T n v h = Inr (?v', h')"
      using shrink v(1) by (simp add: Resize_def GetAddress_def d)
    have h': "blocks h' ! b = take n ?B @ replicate (?m - n) None @ drop ?m ?B"
      "length (blocks h') = length (blocks h)"
      using v by (simp_all add: h'_def)
    have len: "length (blocks h' ! b) = m_capacity (m_data v)"
      using v shrink by (simp add: h')
    have tk: "take n (blocks h' ! b) = take n ?B"
      using v shrink by (simp add: h')
    have lv: "live (take n ?B)"
      using live_take [OF v(5), of n] shrink by (simp add: min_def)
    have "to_list h' ?v' = map (\<lambda>s. Inr (the s)) (take (m_size ?v') (blocks h' ! b))"
      using v shrink lv by (intro to_list_block) (simp_all add: h'(2) len tk)
    also have "\<dots> = take n (map (\<lambda>s. Inr (the s)) (take ?m ?B))"
      using shrink by (simp add: tk take_map min_def)
    also have "map (\<lambda>s. Inr (the s)) (take ?m ?B) = to_list h v"
      using v to_list_block [of v b h] by simp
    finally have tl: "to_list h' ?v' = take n (to_list h v)" .
    have raw: "slot_at h' (ptr_add (Vector_begin v) i) = Some None" if "n \<le> i" "i < ?m" for i
    proof -
      have "blocks h' ! b ! i = None"
        using that v by (auto simp add: h' nth_append)
      then show ?thesis
        using that v by (simp add: Vector_begin_def GetAddress_def h'(2) len)
    qed
    show ?thesis
      using res tl raw shrink by (simp add: Size_def)
  next
    case grow
    let ?m = "m_size v"
    from Reserve_valid [OF assms] obtain v1 h1 where
      r: "Reserve T n v h = Inr (v1, h1)" "valid h1 v1" "Size v1 = Size v"
        "to_list h1 v1 = to_list h v" "n \<le> Capacity v1"
      by blast
    then have m1: "m_size v1 = ?m" "n \<le> m_capacity (m_data v1)"
      by (simp_all add: Size_def Capacity_def RawMemory_Capacity_def)
    with grow have "0 < m_capacity (m_data v1)" by simp
    from valid_PtrE [OF r(2) this] obtain b where
      v: "m_buffer (m_data v1) = Ptr b 0" "b < length (blocks h1)"
        "length (blocks h1 ! b) = m_capacity (m_data v1)"
        "live (take ?m (blocks h1 ! b))"
      unfolding m1 by blast
    let ?B = "blocks h1 ! b"
    define h' where "h' = set_block b (take ?m ?B @ replicate (n - ?m) (Some (value_init T)) @ drop n ?B) h1"
    have c: "uninitialized_value_construct_n T (Ptr b ?m) (n - ?m) h1 = Inr h'"
      using v m1 grow by (simp add: uninitialized_value_construct_n_block h'_def)
    let ?v' = "v1\<lparr>m_size := n\<rparr>"
    have res: "Resize T n v h = Inr (?v', h')"
      using grow v(1) m1 by (simp add: Resize_def r(1) GetAddress_def c)
    have h': "blocks h' ! b = take ?m ?B @ replicate (n - ?m) (Some (value_init T)) @ drop n ?B"
      "length (blocks h') = length (blocks h1)"
      using v by (simp_all add: h'_def)
    have len: "length (blocks h' ! b) = m_capacity (m_data v1)"
      using v m1 grow by (simp add: h')
    have tk: "take n (blocks h' ! b) = take ?m ?B @ replicate (n - ?m) (Some (value_init T))"
      using v m1 grow by (simp add: h')
    have "to_list h' ?v' = map (\<lambda>s. Inr (the s)) (take (m_size ?v') (blocks h' ! b))"
      using v m1 by (intro to_list_block) (simp_all add: h'(2) len tk)
    also have "\<dots> = map (\<lambda>s. Inr (the s)) (take ?m ?B) @ replicate (n - ?m) (Inr (value_init T))"
      by (simp add: tk)
    also have "map (\<lambda>s. Inr (the s)) (take ?m ?B) = to_list h1 v1"
      using v m1 grow to_list_block [of v1 b h1] by simp
    finally have tl: "to_list h' ?v' = to_list h v @ replicate (n - ?m) (Inr (value_init T))"
      by (simp add: r(4))
    show ?thesis
      using res tl grow by (simp add: Size_def)
  qed
qed

lemma Resize_in_range_example:
  "valid mem56 vec56 \<and> (1 \<le> Capacity vec56 \<or> 1 \<le> free_slots mem56 \<and> fits int_type 1) \<and>
   (\<exists>v' h'. Resize int_type 1 vec56 mem56 = Inr (v', h') \<and> Size v' = 1 \<and> to_list h' v' = [Inr 5] \<and>
      slot_at h' (ptr_add (Vector_begin vec56) 1) = Some None) \<and>
   (\<exists>v' h'. Resize int_type 4 vec56 mem56 = Inr (v', h') \<and> Size v' = 4 \<and>
      to_list h' v' = [Inr 5, Inr 6, Inr 0, Inr 0]) \<and>
   Resize int_type 2 vec56 mem56 = Inr (vec56, mem56)"
  using Resize_in_range [OF vec56_facts(1), of 1 int_type]
    Resize_in_range [OF vec56_facts(1), of 4 int_type]
    Resize_in_range [OF vec56_facts(1), of 2 int_type]
  by (auto simp add: vec56_facts example_type_facts numeral_steps)

text \<open>
  C7 at \<open>v.Resize(4611686018427387905)\<close>, which is \<open>2 ^ 62 + 1\<close>, for an empty \<open>Vector<int>\<close>.
  The \<open>Reserve\<close> inside obtains \<open>(2 ^ 62 + 1) * sizeof(int)\<close> bytes, which is 4 in \<open>size_t\<close>:
  a block for one \<open>int\<close>, over which the capacity \<open>2 ^ 62 + 1\<close> is recorded. The
  value-initialisation of the new elements writes past the end of that block with its
  second element. \<open>Resize(2 ^ 62)\<close> on \<open>[5, 6]\<close> writes past the end of a block without slots
  already when \<open>Reserve\<close> transfers the two elements. Neither call ends with \<open>Size() == n\<close>
  and value-initialised elements behind the old ones.
\<close>

theorem Resize_beyond_size_t:
  "Reserve int_type (2 ^ 62 + 1) Vector_default mem56 =
     Inr (\<lparr>m_data = \<lparr>m_buffer = Ptr 1 0, m_capacity = 2 ^ 62 + 1\<rparr>, m_size = 0\<rparr>,
          \<lparr>blocks = [[Some 5, Some 6], [None]], free_slots = 9, in_use = [1, 0]\<rparr>) \<and>
   Resize int_type (2 ^ 62 + 1) Vector_default mem56 = Inl undefined_behaviour \<and>
   Resize int_type (2 ^ 62) vec56 mem56 = Inl undefined_behaviour"
  by (simp add: Allocate_def operator_new_def int_type_def mem56_def vec56_def Reserve_def
      RawMemory_ctor_def Capacity_def RawMemory_Capacity_def GetAddress_def numeral_steps
      move_construct_def load_def construct_at_def Vector_default_def RawMemory_dtor_def
      Deallocate_def Size_def Resize_def)

section \<open>Erase\<close>

text \<open>
  C9: \<open>Erase(begin() + i)\<close> on a valid vector with \<open>i < Size()\<close>. The call returns the
  iterator \<open>begin() + i\<close>, the position it was given; only the length of the vector object
  changes, to one less; the elements are the former ones without the one at index \<open>i\<close>, those
  after it one slot to the left.
\<close>

theorem Erase_shifts_left:
  assumes "valid h v" "i < Size v"
  shows "\<exists>h'. Erase T (ptr_add (Vector_begin v) i) v h =
             Inr (ptr_add (Vector_begin (v\<lparr>m_size := Size v - 1\<rparr>)) i, v\<lparr>m_size := Size v - 1\<rparr>, h') \<and>
           to_list h' (v\<lparr>m_size := Size v - 1\<rparr>) = take i (to_list h v) @ drop (Suc i) (to_list h v)"
proof -
  let ?m = "m_size v"
  have im: "i < ?m" using assms by (simp add: Size_def)
  with valid_size_le [OF assms(1)] have "0 < m_capacity (m_data v)" by simp
  from valid_PtrE [OF assms(1) this] obtain b where
    v: "m_buffer (m_data v) = Ptr b 0" "b < length (blocks h)"
      "length (blocks h ! b) = m_capacity (m_data v)" "?m \<le> m_capacity (m_data v)"
      "live (take ?m (blocks h ! b))"
    by blast
  let ?B = "blocks h ! b"
  let ?n = "?m - Suc i"
  let ?r = "if ?n = 0 then ?B ! i else map_option (moved_from T) (?B ! (i + ?n))"
  define h1 where "h1 = set_block b (take i ?B @ take ?n (drop (Suc i) ?B) @ [?r] @ drop (Suc (i + ?n)) ?B) h"
  have ar: "Suc ?n = ?m - i" "i + ?n = ?m - 1" "Suc (i + ?n) = ?m"
    using im by simp_all
  have "take (Suc ?n) (drop i ?B) = drop i (take ?m ?B)"
    by (simp only: ar drop_take)
  then have lv: "live (take (Suc ?n) (drop i ?B))"
    using v(5) by (simp add: live_drop)
  have mv: "move_n T (Ptr b (Suc i)) ?n (Ptr b i) h = Inr h1"
    unfolding h1_def using v im lv by (intro move_n_shift_left) simp_all
  have sm: "std_move T (Ptr b (Suc i)) (Ptr b ?m) (Ptr b i) h = Inr h1"
    using im by (simp add: std_move_def mv)
  have h1: "b < length (blocks h1)" "length (blocks h1) = length (blocks h)"
    "blocks h1 ! b = take i ?B @ take ?n (drop (Suc i) ?B) @ [?r] @ drop (Suc (i + ?n)) ?B"
    using v by (simp_all add: h1_def)
  have len1: "length (blocks h1 ! b) = m_capacity (m_data v)"
    using v im by (simp add: h1(3))
  have "?B ! i \<noteq> None" "?B ! (?m - 1) \<noteq> None"
    using live_nth [OF v(5), of i] live_nth [OF v(5), of "?m - 1"] im v by simp_all
  then have r: "?r \<noteq> None" using im by (auto simp: Suc_diff_Suc)
  have lp: "length (take i ?B @ take ?n (drop (Suc i) ?B)) = ?m - 1"
    using v im by simp
  have "((take i ?B @ take ?n (drop (Suc i) ?B)) @ ?r # drop (Suc (i + ?n)) ?B) ! (?m - 1) = ?r"
    unfolding lp [symmetric] by (rule nth_append_length)
  then have last1: "blocks h1 ! b ! (?m - 1) = ?r"
    by (simp add: h1(3))
  define h2 where "h2 = set_block b ((blocks h1 ! b)[?m - 1 := None]) h1"
  have ds: "destroy_at (Ptr b (?m - 1)) h1 = Inr h2"
    unfolding h2_def using h1(1) len1 v im r last1 by (intro destroy_at_Ptr) simp_all
  let ?v' = "v\<lparr>m_size := ?m - 1\<rparr>"
  have pb: "PopBack v h1 = Inr (?v', h2)"
    using im v(1) ds by (simp add: PopBack_def assert_def GetAddress_def)
  have res: "Erase T (ptr_add (Vector_begin v) i) v h = Inr (Ptr b i, ?v', h2)"
    using im v(1,4) assms(1) sm pb
    by (simp add: Erase_def Vector_end_valid Vector_begin_def GetAddress_def assert_def ptr_less_def
        RawMemory_plus_def)
  have h2: "b < length (blocks h2)" "length (blocks h2 ! b) = m_capacity (m_data v)"
    using h1 len1 by (simp_all add: h2_def)
  have tk: "take (?m - 1) (blocks h2 ! b) = take i ?B @ take ?n (drop (Suc i) ?B)"
    using v im h1(1) by (simp add: h2_def h1(3))
  have tk': "take i ?B @ take ?n (drop (Suc i) ?B) = take i (take ?m ?B) @ drop (Suc i) (take ?m ?B)"
    using im by (simp add: drop_take min_def)
  have lv2: "live (take (?m - 1) (blocks h2 ! b))"
    unfolding tk tk' using live_take [OF v(5), of i] live_drop [OF v(5), of "Suc i"] by simp
  have "to_list h2 ?v' = map (\<lambda>s. Inr (the s)) (take (m_size ?v') (blocks h2 ! b))"
    using v h2 lv2 by (intro to_list_block) simp_all
  also have "\<dots> = take i (map (\<lambda>s. Inr (the s)) (take ?m ?B)) @ drop (Suc i) (map (\<lambda>s. Inr (the s)) (take ?m ?B))"
    using tk tk' by (simp add: take_map drop_map)
  also have "map (\<lambda>s. Inr (the s)) (take ?m ?B) = to_list h v"
    using v to_list_block [of v b h] by simp
  finally have tl: "to_list h2 ?v' = take i (to_list h v) @ drop (Suc i) (to_list h v)" .
  show ?thesis
    using res tl v(1) by (simp add: Size_def Vector_begin_def GetAddress_def)
qed

theorem Erase_shifts_left_witness:
  "valid mem1992 vec1992 \<and> 2 < Size vec1992 \<and>
   (\<exists>h'. Erase int_type (Ptr 0 2) vec1992 mem1992 = Inr (Ptr 0 2, vec1992\<lparr>m_size := 3\<rparr>, h') \<and>
      to_list h' (vec1992\<lparr>m_size := 3\<rparr>) = [Inr 1, Inr 99, Inr 3])"
  using Erase_shifts_left [OF vec1992_facts(1), of 2 int_type]
  by (simp add: vec1992_facts) (simp add: vec1992_def Vector_begin_def GetAddress_def numeral_2_eq_2)

section \<open>Copy assignment\<close>

text \<open>
  C5: \<open>a = rhs\<close> for two different valid vectors that own different buffers. Should \<open>a\<close> lack
  the capacity, the allocator can provide \<open>rhs.Size()\<close> slots and their byte count is a value
  of \<open>size_t\<close> (as the byte count of the elements that \<open>rhs\<close> holds is). The call returns; \<open>a\<close> then
  has the length and the elements of \<open>rhs\<close>, and \<open>rhs\<close> is as before.

  If the length of \<open>rhs\<close> exceeded the capacity of \<open>a\<close>, \<open>a\<close> owns a new buffer, of capacity
  \<open>rhs.Size()\<close>, and its former buffer is released, no object left in it. Otherwise \<open>data_\<close> of
  \<open>a\<close> is unchanged, the same buffer and the same capacity, and the slots of the buffer from
  the new length up to the former length are raw memory again: the excess elements were
  destroyed. (That the elements from the former length up to the new one are live copies
  is part of \<open>a\<close> having the elements of \<open>rhs\<close>.)
\<close>

theorem copy_assign_copies:
  assumes "this \<noteq> rhs" "valid h (vs this)" "valid h (vs rhs)"
    "m_buffer (m_data (vs this)) \<noteq> m_buffer (m_data (vs rhs)) \<or> m_buffer (m_data (vs rhs)) = nullptr"
    "Size (vs rhs) \<le> Capacity (vs this) \<or> Size (vs rhs) \<le> free_slots h \<and> fits T (Size (vs rhs))"
  shows "\<exists>vs' h'. Vector_copy_assign T this rhs vs h = Inr (vs', h') \<and>
           Size (vs' this) = Size (vs rhs) \<and> to_list h' (vs' this) = to_list h (vs rhs) \<and>
           vs' rhs = vs rhs \<and> to_list h' (vs' rhs) = to_list h (vs rhs) \<and>
           (Capacity (vs this) < Size (vs rhs) \<longrightarrow>
              Capacity (vs' this) = Size (vs rhs) \<and>
              m_buffer (m_data (vs' this)) = Ptr (length (blocks h)) 0 \<and>
              (\<forall>b. m_buffer (m_data (vs this)) = Ptr b 0 \<longrightarrow>
                 blocks h' ! b = [] \<and> b \<notin> set (in_use h'))) \<and>
           (Size (vs rhs) \<le> Capacity (vs this) \<longrightarrow>
              m_data (vs' this) = m_data (vs this) \<and>
              (\<forall>i. Size (vs rhs) \<le> i \<and> i < Size (vs this) \<longrightarrow>
                 slot_at h' (ptr_add (Vector_begin (vs this)) i) = Some None))"
proof (cases "Size (vs rhs) \<le> Capacity (vs this)")
  case True
  from copy_assign_reuse [OF assms(1-4) True, of T] assms(1) True show ?thesis
    by (auto simp: Size_def Vector_begin_def GetAddress_def)
next
  case False
  with assms(5) have "Capacity (vs this) < Size (vs rhs)" "Size (vs rhs) \<le> free_slots h"
    "fits T (Size (vs rhs))"
    by simp_all
  from copy_assign_fresh [OF assms(1-4) this] False show ?thesis
    by auto
qed

theorem copy_assign_copies_witness:
  "(2::nat) \<noteq> 3 \<and> valid mem_two (vecs_two 2) \<and> valid mem_two (vecs_two 3) \<and>
   m_buffer (m_data (vecs_two 2)) \<noteq> m_buffer (m_data (vecs_two 3)) \<and>
   Capacity (vecs_two 2) < Size (vecs_two 3) \<and> Size (vecs_two 3) \<le> free_slots mem_two \<and>
   fits int_type (Size (vecs_two 3)) \<and> Size (vecs_two 2) \<le> Capacity (vecs_two 3) \<and>
   (\<exists>vs' h'. Vector_copy_assign int_type 2 3 vecs_two mem_two = Inr (vs', h') \<and>
      Size (vs' 2) = 3 \<and> to_list h' (vs' 2) = [Inr 1, Inr 2, Inr 3] \<and> Capacity (vs' 2) = 3 \<and>
      m_buffer (m_data (vs' 2)) = Ptr 2 0 \<and> blocks h' ! 0 = [] \<and> 0 \<notin> set (in_use h')) \<and>
   (\<exists>vs' h'. Vector_copy_assign int_type 3 2 vecs_two mem_two = Inr (vs', h') \<and>
      Size (vs' 3) = 2 \<and> to_list h' (vs' 3) = [Inr 5, Inr 6] \<and>
      m_data (vs' 3) = \<lparr>m_buffer = Ptr 1 0, m_capacity = 4\<rparr> \<and>
      slot_at h' (Ptr 1 2) = Some None)"
  using copy_assign_copies [of 2 3 mem_two vecs_two int_type]
    copy_assign_copies [of 3 2 mem_two vecs_two int_type]
  by (simp add: vecs_two_facts example_type_facts Vector_begin_def GetAddress_def del: slot_at.simps)
     (force simp del: slot_at.simps)

section \<open>Insert and Emplace\<close>

text \<open>
  \<open>Emplace\<close> at \<open>begin() + i\<close> with \<open>i \<le> Size()\<close> on a valid vector, for an argument of value \<open>x\<close>
  that does not refer into the buffer of the vector, or when the call reallocates (the
  allocator providing the new buffer, of a byte count within \<open>size_t\<close>), or when the
  position is the end: the call returns the iterator \<open>begin() + i\<close> of the resulting
  vector, the length is one more, and the elements are the former ones with \<open>x\<close> put in at
  index \<open>i\<close>. The example of the specification, \<open>Insert(begin() + 1, 99)\<close> on \<open>[1, 2, 3]\<close>, is
  an instance.
\<close>

lemma Emplace_inserts:
  assumes "valid h v" "i \<le> Size v" "read_arg a h = Inr x"
    "Size v = Capacity v \<or> i = Size v \<or> \<not> refers_into a v"
    "Size v = Capacity v \<longrightarrow> max 1 (2 * Size v) \<le> free_slots h \<and> fits T (max 1 (2 * Size v))"
  shows "\<exists>v' h'. Emplace T (ptr_add (Vector_begin v) i) a v h =
             Inr (ptr_add (Vector_begin v') i, v', h') \<and> Size v' = Size v + 1 \<and>
           to_list h' v' = take i (to_list h v) @ [Inr x] @ drop i (to_list h v) \<and> valid h' v'"
proof (cases "Size v = Capacity v")
  case True
  show ?thesis
  proof (cases "Size v = 0")
    case z: True
    with True have "m_capacity (m_data v) = 0" by (simp add: Capacity_def RawMemory_Capacity_def)
    with assms(1) have np: "m_buffer (m_data v) = nullptr"
      by (cases "m_buffer (m_data v)") (auto simp: valid_def)
    have "to_list h v = []" using z by (simp add: to_list_def)
    then show ?thesis
      using Emplace_first_element [of v h a x T] np assms(1,2,3,5) True z by simp
  next
    case False
    with Emplace_realloc [OF assms(1) True _ assms(2) _ assms(3), of T] assms(5) True
    show ?thesis by (simp add: max_def)
  qed
next
  case False
  show ?thesis
  proof (cases "i = Size v")
    case True
    with Emplace_in_place_end [OF assms(1) False assms(3), of T] show ?thesis
      by (simp add: to_list_def)
  next
    case ne: False
    with assms(2) have "i < Size v" by simp
    moreover from assms(4) False ne have "\<not> refers_into a v" by simp
    ultimately obtain h' where
      "Emplace T (ptr_add (Vector_begin v) i) a v h =
         Inr (ptr_add (Vector_begin v) i, v\<lparr>m_size := Size v + 1\<rparr>, h')"
      "to_list h' (v\<lparr>m_size := Size v + 1\<rparr>) = take i (to_list h v) @ [Inr x] @ drop i (to_list h v)"
      "valid h' (v\<lparr>m_size := Size v + 1\<rparr>)"
      using Emplace_in_place_middle [OF assms(1) _ False assms(3), of i T] by blast
    then show ?thesis
      by (intro exI [of _ "v\<lparr>m_size := Size v + 1\<rparr>"] exI [of _ h'])
         (simp add: Size_def Vector_begin_def)
  qed
qed

lemma Insert_99_into_123:
  "\<exists>v' h'. Insert int_type (ptr_add (Vector_begin vec123) 1) (Value 99) vec123 mem123 =
      Inr (ptr_add (Vector_begin v') 1, v', h') \<and> Size v' = 4 \<and>
      to_list h' v' = [Inr 1, Inr 99, Inr 2, Inr 3]"
  using Emplace_inserts [OF vec123_facts(1), of 1 "Value 99" 99 int_type]
  by (simp add: vec123_facts Insert_def read_arg_def refers_into_def) blast

text \<open>
  C8 at \<open>v.Insert(v.begin(), v[2])\<close> for \<open>v = [1, 2, 3]\<close> with capacity 4. The argument is a
  reference to the element at index 2, whose value is 3 when the call is made. No
  reallocation is needed and the position is not the end, so the elements are shifted
  first and the new value is constructed from the argument afterwards, when slot 2 already
  holds the former \<open>v[1]\<close>. The result is \<open>[2, 1, 2, 3]\<close>: the element at index 0 is 2, not
  the inserted value 3.
\<close>

theorem Insert_own_element_without_reallocation:
  "Vector_index vec123 2 mem123 = Inr 3 \<and>
   read_arg (Ref (Ptr 0 2)) mem123 = Inr 3 \<and>
   Insert int_type (Vector_begin vec123) (Ref (Ptr 0 2)) vec123 mem123 =
     Inr (Ptr 0 0, \<lparr>m_data = \<lparr>m_buffer = Ptr 0 0, m_capacity = 4\<rparr>, m_size = 4\<rparr>,
          \<lparr>blocks = [[Some 2, Some 1, Some 2, Some 3]], free_slots = 10, in_use = [0]\<rparr>) \<and>
   to_list \<lparr>blocks = [[Some 2, Some 1, Some 2, Some 3]], free_slots = 10, in_use = [0]\<rparr>
       \<lparr>m_data = \<lparr>m_buffer = Ptr 0 0, m_capacity = 4\<rparr>, m_size = 4\<rparr> =
     [Inr 2, Inr 1, Inr 2, Inr (3::int)]"
  by (simp add: Insert_def Emplace_def vec123_def mem123_def int_type_def Vector_end_def RawMemory_plus_def
      assert_def Vector_begin_def GetAddress_def Size_def Capacity_def RawMemory_Capacity_def Back_def
      move_construct_def load_def construct_at_def move_backward_def numeral_eq_Suc move_assign_def
      assign_at_def read_arg_def set_block_def to_list_def Vector_index_def RawMemory_index_def upt_rec)

section \<open>Capacity over sequences of operations\<close>

text \<open>
  C2, as the code has it. Over any sequence of calls of \<open>Reserve\<close>, \<open>Resize\<close>, \<open>PushBack\<close>,
  \<open>EmplaceBack\<close>, \<open>Emplace\<close>, \<open>Insert\<close>, \<open>PopBack\<close>, \<open>Erase\<close> and copy assignment that return,
  on any vectors of the program, the capacity of no vector decreases. \<open>Swap\<close> and move
  assignment exchange the capacities of the two vectors, and move construction leaves its
  source with capacity 0.
\<close>

theorem capacity_monotone_without_exchange:
  "(run T ops (vs, h) = Inr (vs', h') \<longrightarrow> list_all (\<lambda>(this, op). \<not> exchanges op) ops \<longrightarrow>
      Capacity (vs k) \<le> Capacity (vs' k)) \<and>
   Capacity (Vector_Swap this other vs this) = Capacity (vs other) \<and>
   Capacity (Vector_Swap this other vs other) = Capacity (vs this) \<and>
   Capacity (Vector_move_assign this rhs vs this) = Capacity (vs rhs) \<and>
   Capacity (Vector_move_assign this rhs vs rhs) = Capacity (vs this) \<and>
   Capacity (snd (Vector_move_ctor a)) = 0"
proof -
  have 1: "run T ops (vs, h) = Inr (vs', h') \<longrightarrow> list_all (\<lambda>(this, op). \<not> exchanges op) ops \<longrightarrow>
      Capacity (vs k) \<le> Capacity (vs' k)"
    using run_capacity_mono [of T ops "(vs, h)" "(vs', h')" k] by simp
  have 2: "Capacity (Vector_Swap this other vs this) = Capacity (vs other)"
    "Capacity (Vector_Swap this other vs other) = Capacity (vs this)"
    by (simp_all add: Vector_Swap_this Vector_Swap_other)
  have 3: "m_data (Vector_move_assign this rhs vs this) = m_data (vs rhs)"
    "m_data (Vector_move_assign this rhs vs rhs) = m_data (vs this)"
    by (simp_all add: Vector_move_assign_def RawMemory_move_assign_def with_data_def data_of_def
        RawMemory_Swap_this RawMemory_Swap_other Let_def)
  have 4: "Capacity (snd (Vector_move_ctor a)) = 0"
    by (simp add: Vector_move_ctor_def RawMemory_move_ctor_def Let_def Capacity_def RawMemory_Capacity_def)
  from 1 2 3 4 show ?thesis by (simp add: Capacity_def)
qed

theorem capacity_monotone_without_exchange_witness:
  "(\<exists>vs' h'. run int_type [(2, OpPushBack (Value 4)), (2, OpPopBack), (3, OpCopyAssign 2)] (vecs_two, mem_two) =
        Inr (vs', h') \<and>
      list_all (\<lambda>(this, op). \<not> exchanges op) [(2::nat, OpPushBack (Value (4::int))), (2, OpPopBack), (3, OpCopyAssign 2)] \<and>
      Capacity (vecs_two 2) \<le> Capacity (vs' 2) \<and> Capacity (vecs_two 3) \<le> Capacity (vs' 3))"
proof -
  have v: "valid mem_two (vecs_two 2)" "Size (vecs_two 2) = Capacity (vecs_two 2)"
    "max 1 (2 * Capacity (vecs_two 2)) \<le> free_slots mem_two"
    by (simp_all add: vecs_two_facts)
  obtain s' where r: "run int_type [(2, OpPushBack (Value 4)), (2, OpPopBack), (3, OpCopyAssign 2)] (vecs_two, mem_two) = Inr s'"
    by (simp add: vecs_two_def mem_two_def int_type_def PushBack_grow_with grow_with_def Size_def Capacity_def
        RawMemory_Capacity_def RawMemory_ctor_def Allocate_def operator_new_def RawMemory_plus_def assert_def
        construct_copy_def construct_at_def UninitializedMoveOrCopyN_def Vector_begin_def GetAddress_def
        numeral_steps move_construct_def load_def replace_buffer_def destroy_at_def RawMemory_dtor_def
        Deallocate_def PopBack_def Vector_copy_assign_def copy_assign_def assign_at_def
        Vector_default_def)
  then obtain vs' h' where s': "s' = (vs', h')" by (cases s')
  show ?thesis
    using capacity_monotone_without_exchange [of int_type "[(2, OpPushBack (Value 4)), (2, OpPopBack), (3, OpCopyAssign 2)]"
        vecs_two mem_two vs' h' 2]
      capacity_monotone_without_exchange [of int_type "[(2, OpPushBack (Value 4)), (2, OpPopBack), (3, OpCopyAssign 2)]"
        vecs_two mem_two vs' h' 3] r s'
    by simp
qed

text \<open>
  C2 as stated fails: \<open>Swap\<close> lowers the capacity of vector 3 from 4 to 2, and so does a move
  assignment to vector 3, of which it is the target, not the source.
\<close>

theorem capacity_decreases_counterexample:
  "run int_type [(3, OpSwap 2)] (vecs_two, mem_two) = Inr (Vector_Swap 3 2 vecs_two, mem_two) \<and>
   \<not> Capacity (vecs_two 3) \<le> Capacity (Vector_Swap 3 2 vecs_two 3) \<and>
   run int_type [(3, OpMoveAssign 2)] (vecs_two, mem_two) = Inr (Vector_move_assign 3 2 vecs_two, mem_two) \<and>
   \<not> Capacity (vecs_two 3) \<le> Capacity (Vector_move_assign 3 2 vecs_two 3)"
  by (simp add: Vector_Swap_this vecs_two_facts Capacity_def RawMemory_Capacity_def
      Vector_move_assign_def RawMemory_move_assign_def with_data_def data_of_def
      RawMemory_Swap_this RawMemory_Swap_other Let_def)

end
